theory Spec2Isabelle
  imports Main "HOL-Library.Word" "HOL-Library.AList" "HOL-Library.Sublist"
begin

section \<open>Modbus client and gateway\<close>

text \<open>
  The driver talks to the gateway only through the jsmodbus client: every call of
  \<open>client.readHoldingRegisters\<close> or \<open>client.writeSingleRegister\<close> is one transaction,
  addressed to the unit id the client holds at the moment of the call. The gateway is
  modelled as an arbitrary function from the transactions made so far and the new
  request to a response, so a gateway may answer the same request differently over
  time. The client records every transaction in order.

  jsmodbus writes the unit id into the one unit-id byte of the frame header. The
  functions \<open>request\<close>, \<open>readHoldingRegisters\<close> and \<open>writeSingleRegister\<close> below are the
  calls of a client whose unit id fits that byte (at most 255) and whose request queue is
  free. The driver pokes the unit id into the client unchecked (\<open>setUnitId\<close>); the one
  place where it can set a unit id above 255 is the loop of \<open>discoverViaPanelServer\<close>,
  which takes the unit ids from the gateway's address table, and what jsmodbus does then
  is modelled there.
\<close>

type_synonym byte = "8 word"

datatype request =
    ReadHoldingRegisters nat nat nat   \<comment> \<open>unit id, start register, register count\<close>
  | WriteSingleRegister nat nat nat    \<comment> \<open>unit id, register, value\<close>

datatype response =
    Timeout                            \<comment> \<open>no answer within the client's timeout\<close>
  | ModbusException nat                \<comment> \<open>Modbus exception response with its code\<close>
  | Reply "byte list"                  \<comment> \<open>response body; for a read: \<open>valuesAsBuffer\<close>\<close>

type_synonym transaction = "request \<times> response"

type_synonym gateway = "transaction list \<Rightarrow> request \<Rightarrow> response"

datatype error =
    RequestTimeout                     \<comment> \<open>rejected promise: timeout\<close>
  | RequestException nat               \<comment> \<open>rejected promise: Modbus exception\<close>
  | RangeError                         \<comment> \<open>Buffer read outside the buffer\<close>
  | ConnectionError string             \<comment> \<open>the socket could not be connected\<close>

record client =
  cl_unitId :: nat
  cl_log :: "transaction list"

definition setUnitId :: "nat \<Rightarrow> client \<Rightarrow> client" where
  "setUnitId unitId c = c\<lparr>cl_unitId := unitId\<rparr>"

definition settle :: "response \<Rightarrow> error + byte list" where
  "settle resp =
     (case resp of
        Timeout \<Rightarrow> Inl RequestTimeout
      | ModbusException code \<Rightarrow> Inl (RequestException code)
      | Reply body \<Rightarrow> Inr body)"

definition request :: "gateway \<Rightarrow> request \<Rightarrow> client \<Rightarrow> (error + byte list) \<times> client" where
  "request gw req c =
     (let resp = gw (cl_log c) req
      in (settle resp, c\<lparr>cl_log := cl_log c @ [(req, resp)]\<rparr>))"

definition readHoldingRegisters ::
  "gateway \<Rightarrow> nat \<Rightarrow> nat \<Rightarrow> client \<Rightarrow> (error + byte list) \<times> client" where
  "readHoldingRegisters gw start count c =
     request gw (ReadHoldingRegisters (cl_unitId c) start count) c"

definition writeSingleRegister ::
  "gateway \<Rightarrow> nat \<Rightarrow> nat \<Rightarrow> client \<Rightarrow> (error + byte list) \<times> client" where
  "writeSingleRegister gw reg v c =
     request gw (WriteSingleRegister (cl_unitId c) reg v) c"

text \<open>The transactions made between two client states, and their two halves.\<close>

definition transactions :: "client \<Rightarrow> client \<Rightarrow> transaction list" where
  "transactions c c' = drop (length (cl_log c)) (cl_log c')"

definition issued :: "client \<Rightarrow> client \<Rightarrow> request list" where
  "issued c c' = map fst (transactions c c')"

definition replies :: "client \<Rightarrow> client \<Rightarrow> response list" where
  "replies c c' = map snd (transactions c c')"

section \<open>Register addresses\<close>

definition REG_CURRENT_L1 :: nat where "REG_CURRENT_L1 = 2999"
definition REG_VOLTAGE_LN_1 :: nat where "REG_VOLTAGE_LN_1 = 3027"
definition REG_VOLTAGE_LL_1 :: nat where "REG_VOLTAGE_LL_1 = 3019"
definition REG_POWER_L1 :: nat where "REG_POWER_L1 = 3053"
definition REG_POWER_FACTOR :: nat where "REG_POWER_FACTOR = 3083"
definition REG_FREQUENCY :: nat where "REG_FREQUENCY = 3109"
definition REG_TEMPERATURE :: nat where "REG_TEMPERATURE = 3131"
definition REG_ENERGY_TOTAL :: nat where "REG_ENERGY_TOTAL = 3203"
definition REG_DEVICE_TYPE :: nat where "REG_DEVICE_TYPE = 31024"
definition REG_DEVICE_NAME :: nat where "REG_DEVICE_NAME = 31000"
definition REG_PAS_DEVICE_ADDRESS :: nat where "REG_PAS_DEVICE_ADDRESS = 504"
definition REG_COMMERCIAL_REF :: nat where "REG_COMMERCIAL_REF = 31060"
definition REG_HEATTAG_TEMP :: nat where "REG_HEATTAG_TEMP = 4001"
definition REG_HEATTAG_HUMIDITY :: nat where "REG_HEATTAG_HUMIDITY = 4007"
definition REG_HEATTAG_ALARM :: nat where "REG_HEATTAG_ALARM = 3323"
definition REG_DI1_STATUS :: nat where "REG_DI1_STATUS = 34065"
definition REG_DI2_STATUS :: nat where "REG_DI2_STATUS = 34165"
definition REG_DO1_CMD :: nat where "REG_DO1_CMD = 37051"
definition REG_DO1_STATUS :: nat where "REG_DO1_STATUS = 37052"

section \<open>Promises\<close>

text \<open>
  A rejected promise, like a thrown exception, is \<open>Inl\<close>. \<open>andThen\<close> is the rest of an
  \<open>async\<close> function after an \<open>await\<close>, or the statements after one that may throw.
  An array literal of \<open>client.readHoldingRegisters\<close> calls makes every call, in order,
  before anything is awaited (\<open>issueReads\<close>); \<open>Promise.all\<close> then waits for all of them
  and rejects if one of them rejected.
\<close>

definition andThen :: "error + 'a \<Rightarrow> ('a \<Rightarrow> error + 'b) \<Rightarrow> error + 'b" where
  "andThen m f = (case m of Inl e \<Rightarrow> Inl e | Inr x \<Rightarrow> f x)"

fun issueReads ::
  "gateway \<Rightarrow> (nat \<times> nat) list \<Rightarrow> client \<Rightarrow> (error + byte list) list \<times> client" where
  "issueReads gw [] c = ([], c)"
| "issueReads gw ((start, count) # rest) c =
     (let (r, c1) = readHoldingRegisters gw start count c;
          (rs, c2) = issueReads gw rest c1
      in (r # rs, c2))"

fun Promise_all :: "(error + 'a) list \<Rightarrow> error + 'a list" where
  "Promise_all [] = Inr []"
| "Promise_all (Inl e # ps) = Inl e"
| "Promise_all (Inr x # ps) = andThen (Promise_all ps) (\<lambda>xs. Inr (x # xs))"

section \<open>Decoding register buffers\<close>

text \<open>
  Node's \<open>Buffer\<close> reads throw a \<open>RangeError\<close> when the value does not lie inside the
  buffer. The arithmetic of JavaScript numbers is not modelled: a poll result holds
  numbers of a type \<open>'n\<close>, and the three operations that produce them are parameters.
\<close>

record 'n number_ops =
  float32 :: "32 word \<Rightarrow> 'n"         \<comment> \<open>the number an IEEE-754 single with these bits denotes\<close>
  times100 :: "'n \<Rightarrow> 'n"             \<comment> \<open>\<open>x * 100\<close>\<close>
  bigint_div1000 :: "64 word \<Rightarrow> 'n"  \<comment> \<open>\<open>Number(v) / 1000\<close> for the signed 64-bit \<open>v\<close>\<close>

definition readUInt16BE :: "byte list \<Rightarrow> nat \<Rightarrow> error + nat" where
  "readUInt16BE buf offset =
     (if offset + 2 \<le> length buf
      then Inr (unat (buf ! offset) * 256 + unat (buf ! (offset + 1)))
      else Inl RangeError)"

definition readFloatBE :: "'n number_ops \<Rightarrow> byte list \<Rightarrow> nat \<Rightarrow> error + 'n" where
  "readFloatBE ops buf offset =
     (if offset + 4 \<le> length buf
      then Inr (float32 ops (word_rcat (take 4 (drop offset buf))))
      else Inl RangeError)"

definition readBigInt64BE :: "byte list \<Rightarrow> nat \<Rightarrow> error + 64 word" where
  "readBigInt64BE buf offset =
     (if offset + 8 \<le> length buf
      then Inr (word_rcat (take 8 (drop offset buf)))
      else Inl RangeError)"

text \<open>
  \<open>String.fromCharCode(byte)\<close> for a byte is the code unit of that value; a string of
  such code units is a \<open>string\<close>. \<open>String.prototype.trim\<close> removes white space and line
  terminators from both ends; among the code units below 256 these are TAB, LF, VT, FF,
  CR, SPACE and NBSP.
\<close>

definition fromCharCode :: "byte \<Rightarrow> char" where
  "fromCharCode b = char_of (unat b)"

definition isWhiteSpace :: "char \<Rightarrow> bool" where
  "isWhiteSpace ch = ((of_char ch :: nat) \<in> {9, 10, 11, 12, 13, 32, 160})"

definition trim :: "string \<Rightarrow> string" where
  "trim s = rev (dropWhile isWhiteSpace (rev (dropWhile isWhiteSpace s)))"

function parseAscii_loop :: "byte list \<Rightarrow> nat \<Rightarrow> string \<Rightarrow> string" where
  "parseAscii_loop buf i str =
     (if i < length buf then
        (let byte = buf ! i
         in if byte = 0 then str
            else parseAscii_loop buf (i + 1) (str @ [fromCharCode byte]))
      else str)"
  by pat_completeness auto
termination
  by (relation "measure (\<lambda>(buf, i, str). length buf - i)") auto

declare parseAscii_loop.simps [simp del]

definition parseAsciiBuffer :: "byte list \<Rightarrow> string" where
  "parseAsciiBuffer buf = trim (parseAscii_loop buf 0 [])"

section \<open>Polling one device\<close>

record 'n EnergyPollResult =
  currentL1 :: 'n
  currentL2 :: 'n
  currentL3 :: 'n
  voltagePh1 :: 'n
  voltagePh2 :: 'n
  voltagePh3 :: 'n
  powerL1 :: 'n
  powerL2 :: 'n
  powerL3 :: 'n
  totalPower :: 'n
  powerFactor :: 'n
  frequency :: 'n
  temperature :: 'n
  totalEnergy :: 'n

record 'n HeatTagPollResult =
  ht_temperature :: 'n
  ht_humidity :: 'n
  ht_alarmLevel :: nat

record Control2DIPollResult =
  di1Status :: bool
  di2Status :: bool

record ControlIOPollResult =
  io_di1Status :: bool
  io_outputStatus :: bool

text \<open>The voltage mode is a string; only the comparison with \<open>'L-N'\<close> looks at it.\<close>

definition readAllRegisters ::
  "'n number_ops \<Rightarrow> gateway \<Rightarrow> string \<Rightarrow> client \<Rightarrow> (error + 'n EnergyPollResult) \<times> client" where
  "readAllRegisters ops gw voltageMode c =
     (let voltStart = (if voltageMode = ''L-N'' then REG_VOLTAGE_LN_1 else REG_VOLTAGE_LL_1);
          (promises, c') = issueReads gw
             [(REG_CURRENT_L1, 6), (voltStart, 6), (REG_POWER_L1, 8), (REG_POWER_FACTOR, 2),
              (REG_FREQUENCY, 2), (REG_TEMPERATURE, 2), (REG_ENERGY_TOTAL, 4)] c
      in (andThen (Promise_all promises) (\<lambda>resps.
            let currBuf = resps ! 0; voltBuf = resps ! 1; powerBuf = resps ! 2;
                pfBuf = resps ! 3; freqBuf = resps ! 4; tempBuf = resps ! 5;
                energyBuf = resps ! 6
            in
            andThen (readFloatBE ops currBuf 0) (\<lambda>cL1.
            andThen (readFloatBE ops currBuf 4) (\<lambda>cL2.
            andThen (readFloatBE ops currBuf 8) (\<lambda>cL3.
            andThen (readFloatBE ops voltBuf 0) (\<lambda>v1.
            andThen (readFloatBE ops voltBuf 4) (\<lambda>v2.
            andThen (readFloatBE ops voltBuf 8) (\<lambda>v3.
            andThen (readFloatBE ops powerBuf 0) (\<lambda>pL1.
            andThen (readFloatBE ops powerBuf 4) (\<lambda>pL2.
            andThen (readFloatBE ops powerBuf 8) (\<lambda>pL3.
            andThen (readFloatBE ops powerBuf 12) (\<lambda>pT.
            andThen (readFloatBE ops pfBuf 0) (\<lambda>pf.
            andThen (readFloatBE ops freqBuf 0) (\<lambda>fr.
            andThen (readFloatBE ops tempBuf 0) (\<lambda>te.
            andThen (readBigInt64BE energyBuf 0) (\<lambda>en.
            Inr \<lparr>currentL1 = cL1, currentL2 = cL2, currentL3 = cL3,
                 voltagePh1 = v1, voltagePh2 = v2, voltagePh3 = v3,
                 powerL1 = pL1, powerL2 = pL2, powerL3 = pL3, totalPower = pT,
                 powerFactor = pf, frequency = fr, temperature = te,
                 totalEnergy = bigint_div1000 ops en\<rparr>))))))))))))))), c'))"

definition readHeatTagRegisters ::
  "'n number_ops \<Rightarrow> gateway \<Rightarrow> client \<Rightarrow> (error + 'n HeatTagPollResult) \<times> client" where
  "readHeatTagRegisters ops gw c =
     (let (promises, c') = issueReads gw
             [(REG_HEATTAG_TEMP, 2), (REG_HEATTAG_HUMIDITY, 2), (REG_HEATTAG_ALARM, 1)] c
      in (andThen (Promise_all promises) (\<lambda>resps.
            let tempBuf = resps ! 0; humBuf = resps ! 1; alarmBuf = resps ! 2
            in
            andThen (readFloatBE ops humBuf 0) (\<lambda>humidity.
            andThen (readFloatBE ops tempBuf 0) (\<lambda>te.
            andThen (readUInt16BE alarmBuf 0) (\<lambda>al.
            Inr \<lparr>ht_temperature = te, ht_humidity = times100 ops humidity,
                 ht_alarmLevel = al\<rparr>)))), c'))"

definition readControl2DIRegisters ::
  "gateway \<Rightarrow> client \<Rightarrow> (error + Control2DIPollResult) \<times> client" where
  "readControl2DIRegisters gw c =
     (let (promises, c') = issueReads gw [(REG_DI1_STATUS, 1), (REG_DI2_STATUS, 1)] c
      in (andThen (Promise_all promises) (\<lambda>resps.
            let di1Buf = resps ! 0; di2Buf = resps ! 1
            in
            andThen (readUInt16BE di1Buf 0) (\<lambda>di1.
            andThen (readUInt16BE di2Buf 0) (\<lambda>di2.
            Inr \<lparr>di1Status = (di1 = 0), di2Status = (di2 = 0)\<rparr>))), c'))"

definition readControlIORegisters ::
  "gateway \<Rightarrow> client \<Rightarrow> (error + ControlIOPollResult) \<times> client" where
  "readControlIORegisters gw c =
     (let (promises, c') = issueReads gw [(REG_DI1_STATUS, 1), (REG_DO1_STATUS, 1)] c
      in (andThen (Promise_all promises) (\<lambda>resps.
            let di1Buf = resps ! 0; doBuf = resps ! 1
            in
            andThen (readUInt16BE di1Buf 0) (\<lambda>di1.
            andThen (readUInt16BE doBuf 0) (\<lambda>do1.
            Inr \<lparr>io_di1Status = (di1 = 0), io_outputStatus = (do1 = 1)\<rparr>))), c'))"

definition writeControlIOOutput :: "gateway \<Rightarrow> bool \<Rightarrow> client \<Rightarrow> (error + unit) \<times> client" where
  "writeControlIOOutput gw on c =
     (case writeSingleRegister gw REG_DO1_CMD (if on then 2 else 1) c of
        (Inl e, c') \<Rightarrow> (Inl e, c')
      | (Inr _, c') \<Rightarrow> (Inr (), c'))"

section \<open>Discovery\<close>

text \<open>
  The model table and the capability functions live in \<open>lib/PowerTagRegistry\<close>, which
  is not part of the sources at hand; discovery takes them as parameters. Of a model
  configuration discovery reads the fields \<open>typeId\<close>, \<open>model\<close> and \<open>name\<close>.
\<close>

record PowerTagSettings =
  address :: string
  port :: nat
  polling :: nat

record PowerTagModelConfig =
  mc_typeId :: nat
  mc_model :: string
  mc_name :: string

record ('cap, 'opt) registry =
  POWERTAG_MODELS :: "nat \<Rightarrow> PowerTagModelConfig option"
  getModelByReference :: "string \<Rightarrow> PowerTagModelConfig option"
  getCapabilitiesForModel :: "PowerTagModelConfig \<Rightarrow> 'cap"
  getCapabilityOptionsForModel :: "PowerTagModelConfig \<Rightarrow> 'opt"

record ('cap, 'opt) DeviceEntry =
  de_name :: string
  de_data_id :: string
  de_settings :: PowerTagSettings
  store_unitId :: nat
  store_typeId :: nat
  store_model :: string
  de_capabilities :: 'cap
  de_capabilitiesOptions :: 'opt

text \<open>A number inside a template literal: its decimal digits.\<close>

fun string_of_nat :: "nat \<Rightarrow> string" where
  "string_of_nat n =
     (if n < 10 then [char_of (48 + n)]
      else string_of_nat (n div 10) @ [char_of (48 + n mod 10)])"

declare string_of_nat.simps [simp del]

definition buildDeviceEntry ::
  "('cap, 'opt) registry \<Rightarrow> PowerTagSettings \<Rightarrow> nat \<Rightarrow> nat \<Rightarrow> PowerTagModelConfig \<Rightarrow> string
   \<Rightarrow> ('cap, 'opt) DeviceEntry" where
  "buildDeviceEntry reg settings unitId typeId modelConfig deviceName =
     \<lparr>de_name = (if deviceName \<noteq> [] then deviceName
                 else mc_name modelConfig @ '' ('' @ string_of_nat unitId @ '')''),
      de_data_id = address settings @ '':'' @ string_of_nat (port settings) @ '':'' @
                   string_of_nat unitId,
      de_settings = \<lparr>address = address settings, port = port settings,
                      polling = polling settings\<rparr>,
      store_unitId = unitId, store_typeId = typeId, store_model = mc_model modelConfig,
      de_capabilities = getCapabilitiesForModel reg modelConfig,
      de_capabilitiesOptions = getCapabilityOptionsForModel reg modelConfig\<rparr>"

definition readDeviceType :: "gateway \<Rightarrow> client \<Rightarrow> (error + nat) \<times> client" where
  "readDeviceType gw c =
     (let (resp, c') = readHoldingRegisters gw REG_DEVICE_TYPE 1 c
      in (andThen resp (\<lambda>buf. readUInt16BE buf 0), c'))"

definition readDeviceName :: "gateway \<Rightarrow> client \<Rightarrow> (error + string) \<times> client" where
  "readDeviceName gw c =
     (let (resp, c') = readHoldingRegisters gw REG_DEVICE_NAME 10 c
      in (andThen resp (\<lambda>buf. Inr (parseAsciiBuffer buf)), c'))"

definition readCommercialReference :: "gateway \<Rightarrow> client \<Rightarrow> (error + string) \<times> client" where
  "readCommercialReference gw c =
     (let (resp, c') = readHoldingRegisters gw REG_COMMERCIAL_REF 16 c
      in (andThen resp (\<lambda>buf. Inr (parseAsciiBuffer buf)), c'))"

text \<open>
  A JavaScript \<open>Map\<close> keeps its entries in insertion order and \<open>set\<close> on a present
  key replaces the value in place: an association list under \<open>AList.update\<close>.
\<close>

function addresses_loop ::
  "byte list list \<Rightarrow> nat \<Rightarrow> (nat \<times> nat) list \<Rightarrow> error + (nat \<times> nat) list" where
  "addresses_loop chunks slot addresses =
     (if slot \<le> 99 then
        (let regOffset = (slot - 1) * 5;
             chunkIndex = regOffset div 125;
             indexInChunk = (regOffset mod 125) * 2;
             buf = chunks ! chunkIndex
         in andThen (readUInt16BE buf indexInChunk) (\<lambda>unitId.
              addresses_loop chunks (slot + 1)
                (if unitId \<noteq> 0 \<and> unitId \<noteq> 65535
                 then AList.update slot unitId addresses else addresses)))
      else Inr addresses)"
  by pat_completeness auto
termination
  by (relation "measure (\<lambda>(chunks, slot, addresses). 100 - slot)") auto

declare addresses_loop.simps [simp del]

definition readPanelServerDeviceAddresses ::
  "gateway \<Rightarrow> client \<Rightarrow> (error + (nat \<times> nat) list) \<times> client" where
  "readPanelServerDeviceAddresses gw c =
     (let baseReg = REG_PAS_DEVICE_ADDRESS;
          (promises, c') = issueReads gw
             [(baseReg, 125), (baseReg + 125, 125), (baseReg + 250, 125), (baseReg + 375, 120)] c
      in (andThen (Promise_all promises) (\<lambda>chunks. addresses_loop chunks 1 []), c'))"

text \<open>
  A unit id above 255 in the client: the call of \<open>client.readHoldingRegisters\<close> makes the
  request the current one of the request queue and then throws a \<open>RangeError\<close> while
  writing the unit-id byte, before anything is sent and before the timeout of the request
  is started. The queue never gets rid of that request: for as long as the gateway keeps
  the connection open it stays blocked, and the promise of every later call on this client
  never settles. A run that awaits such a promise never returns; it neither returns a
  value nor throws (\<open>NeverSettles\<close>). Neither the request that threw nor a request that
  waits in the blocked queue is sent, so neither is a transaction of the log.
\<close>

datatype failure =
    Raised error      \<comment> \<open>the promise is rejected, the function throws\<close>
  | NeverSettles      \<comment> \<open>the promise never settles, the function never returns\<close>

text \<open>
  One round of the loop over the address map: \<open>panelServerSlot_try\<close> is the body of the
  \<open>try\<close> block (\<open>Inl\<close> when it throws), \<open>panelServerSlot\<close> adds the \<open>catch\<close>. The last
  component says whether the request queue of the client is blocked afterwards. A round
  is run on a client whose queue is free.
\<close>

definition panelServerSlot_try ::
  "('cap, 'opt) registry \<Rightarrow> gateway \<Rightarrow> PowerTagSettings \<Rightarrow> nat \<Rightarrow>
   ('cap, 'opt) DeviceEntry list \<Rightarrow> client \<Rightarrow>
   (error + ('cap, 'opt) DeviceEntry list) \<times> client \<times> bool" where
  "panelServerSlot_try reg gw settings unitId devices c =
     (let c1 = setUnitId unitId c
      in if 255 < unitId then (Inl RangeError, c1, True)
         else
           (let (r, c2) = readCommercialReference gw c1
            in case r of
                 Inl e \<Rightarrow> (Inl e, c2, False)
               | Inr reference \<Rightarrow>
                   if reference = [] then (Inr devices, c2, False)
                   else (case getModelByReference reg reference of
                           None \<Rightarrow> (Inr devices, c2, False)
                         | Some modelConfig \<Rightarrow>
                             (let (n, c3) = readDeviceName gw c2;
                                  deviceName = (case n of Inl e \<Rightarrow> [] | Inr s \<Rightarrow> s)
                              in (Inr (devices @ [buildDeviceEntry reg settings unitId
                                                    (mc_typeId modelConfig) modelConfig deviceName]),
                                  c3, False)))))"

definition panelServerSlot ::
  "('cap, 'opt) registry \<Rightarrow> gateway \<Rightarrow> PowerTagSettings \<Rightarrow> nat \<Rightarrow>
   ('cap, 'opt) DeviceEntry list \<Rightarrow> client \<Rightarrow>
   ('cap, 'opt) DeviceEntry list \<times> client \<times> bool" where
  "panelServerSlot reg gw settings unitId devices c =
     (case panelServerSlot_try reg gw settings unitId devices c of
        (Inl e, c', blocked) \<Rightarrow> (devices, c', blocked)
      | (Inr devices', c', blocked) \<Rightarrow> (devices', c', blocked))"

text \<open>
  The loop over the address map. On a blocked client the read of the commercial reference
  never settles and the loop never returns: \<open>None\<close>, with the client as it is then.
\<close>

fun panelServer_loop ::
  "('cap, 'opt) registry \<Rightarrow> gateway \<Rightarrow> PowerTagSettings \<Rightarrow> (nat \<times> nat) list \<Rightarrow>
   ('cap, 'opt) DeviceEntry list \<Rightarrow> client \<Rightarrow> bool \<Rightarrow>
   ('cap, 'opt) DeviceEntry list option \<times> client \<times> bool" where
  "panelServer_loop reg gw settings [] devices c blocked = (Some devices, c, blocked)"
| "panelServer_loop reg gw settings ((slot, unitId) # rest) devices c blocked =
     (if blocked then (None, setUnitId unitId c, True)
      else (let (devices', c', blocked') = panelServerSlot reg gw settings unitId devices c
            in panelServer_loop reg gw settings rest devices' c' blocked'))"

definition discoverViaPanelServer ::
  "('cap, 'opt) registry \<Rightarrow> gateway \<Rightarrow> PowerTagSettings \<Rightarrow> client \<Rightarrow>
   (failure + ('cap, 'opt) DeviceEntry list) \<times> client \<times> bool" where
  "discoverViaPanelServer reg gw settings c =
     (let c1 = setUnitId 255 c;
          (r, c2) = readPanelServerDeviceAddresses gw c1
      in case r of
           Inl e \<Rightarrow> (Inl (Raised e), c2, False)
         | Inr addressMap \<Rightarrow>
             (case panelServer_loop reg gw settings addressMap [] c2 False of
                (None, c3, blocked) \<Rightarrow> (Inl NeverSettles, c3, blocked)
              | (Some devices, c3, blocked) \<Rightarrow> (Inr devices, c3, blocked)))"

text \<open>
  One round of the scan loop. \<open>scanUnit_try\<close> is the body of the \<open>try\<close> block: \<open>Inl\<close>
  when it throws, else the counter and the devices after it. \<open>scanUnit\<close> adds the
  \<open>catch\<close>; its first component says whether the loop is left by \<open>break\<close>.
\<close>

definition scanUnit_try ::
  "('cap, 'opt) registry \<Rightarrow> gateway \<Rightarrow> PowerTagSettings \<Rightarrow> nat \<Rightarrow> nat \<Rightarrow>
   ('cap, 'opt) DeviceEntry list \<Rightarrow> client \<Rightarrow>
   (error + nat \<times> ('cap, 'opt) DeviceEntry list) \<times> client" where
  "scanUnit_try reg gw settings unitId consecutiveTimeouts devices c =
     (let c1 = setUnitId unitId c;
          (r, c2) = readDeviceType gw c1
      in case r of
           Inl e \<Rightarrow> (Inl e, c2)
         | Inr typeId \<Rightarrow>
             if typeId = 0 \<or> typeId = 65535 then (Inr (0, devices), c2)
             else (case POWERTAG_MODELS reg typeId of
                     None \<Rightarrow> (Inr (0, devices), c2)
                   | Some modelConfig \<Rightarrow>
                       (let (n, c3) = readDeviceName gw c2;
                            deviceName = (case n of Inl e \<Rightarrow> [] | Inr s \<Rightarrow> s)
                        in (Inr (0, devices @ [buildDeviceEntry reg settings unitId typeId
                                                 modelConfig deviceName]),
                            c3))))"

definition scanUnit ::
  "('cap, 'opt) registry \<Rightarrow> gateway \<Rightarrow> PowerTagSettings \<Rightarrow> nat \<Rightarrow> nat \<Rightarrow> nat \<Rightarrow>
   ('cap, 'opt) DeviceEntry list \<Rightarrow> client \<Rightarrow>
   bool \<times> nat \<times> ('cap, 'opt) DeviceEntry list \<times> client" where
  "scanUnit reg gw settings maxConsecutiveTimeouts unitId consecutiveTimeouts devices c =
     (case scanUnit_try reg gw settings unitId consecutiveTimeouts devices c of
        (Inr (consecutiveTimeouts', devices'), c') \<Rightarrow> (False, consecutiveTimeouts', devices', c')
      | (Inl e, c') \<Rightarrow>
          (let consecutiveTimeouts' = consecutiveTimeouts + 1
           in (consecutiveTimeouts' \<ge> maxConsecutiveTimeouts, consecutiveTimeouts', devices, c')))"

function scan_loop ::
  "('cap, 'opt) registry \<Rightarrow> gateway \<Rightarrow> PowerTagSettings \<Rightarrow> nat \<Rightarrow> nat \<Rightarrow> nat \<Rightarrow> nat \<Rightarrow>
   ('cap, 'opt) DeviceEntry list \<Rightarrow> client \<Rightarrow> ('cap, 'opt) DeviceEntry list \<times> client" where
  "scan_loop reg gw settings endId maxConsecutiveTimeouts unitId consecutiveTimeouts devices c =
     (if unitId < endId then
        (case scanUnit reg gw settings maxConsecutiveTimeouts unitId consecutiveTimeouts devices c of
           (stop, consecutiveTimeouts', devices', c') \<Rightarrow>
             if stop then (devices', c')
             else scan_loop reg gw settings endId maxConsecutiveTimeouts (unitId + 1)
                    consecutiveTimeouts' devices' c')
      else (devices, c))"
  by pat_completeness auto
termination
  by (relation "measure (\<lambda>(reg, gw, settings, endId, m, unitId, k, devices, c). endId - unitId)")
    auto

declare scan_loop.simps [simp del]

definition scanUnitRange ::
  "('cap, 'opt) registry \<Rightarrow> gateway \<Rightarrow> PowerTagSettings \<Rightarrow> nat \<Rightarrow> nat \<Rightarrow> nat \<Rightarrow> client \<Rightarrow>
   ('cap, 'opt) DeviceEntry list \<times> client" where
  "scanUnitRange reg gw settings startId endId maxConsecutiveTimeouts c =
     scan_loop reg gw settings endId maxConsecutiveTimeouts startId 0 [] c"

text \<open>
  The outcome of connecting the socket is an input of discovery. The client is created
  with unit id 1 and has made no transaction yet. \<open>scanUnitRange\<close> is the scan on a client
  whose queue is free; on a blocked client the first device-type read of the first scan
  never settles.
\<close>

datatype connection = Connected | ConnectTimeout | SocketError string

definition discoverDevices ::
  "('cap, 'opt) registry \<Rightarrow> gateway \<Rightarrow> PowerTagSettings \<Rightarrow> connection \<Rightarrow>
   (failure + ('cap, 'opt) DeviceEntry list) \<times> client" where
  "discoverDevices reg gw settings conn =
     (let client = \<lparr>cl_unitId = 1, cl_log = []\<rparr>
      in case conn of
           ConnectTimeout \<Rightarrow>
             (Inl (Raised (ConnectionError ''Discovery connection timeout'')), client)
         | SocketError msg \<Rightarrow> (Inl (Raised (ConnectionError msg)), client)
         | Connected \<Rightarrow>
             (let (r, c1, blocked) = discoverViaPanelServer reg gw settings client
              in case r of
                   Inl NeverSettles \<Rightarrow> (Inl NeverSettles, c1)
                 | _ \<Rightarrow>
                     (let devices = (case r of Inl e \<Rightarrow> [] | Inr found \<Rightarrow> found)
                      in if length devices = 0 then
                           (if blocked then (Inl NeverSettles, c1)
                            else
                              (let (smartlink, c2) = scanUnitRange reg gw settings 150 170 10 c1;
                                   (lower, c3) = scanUnitRange reg gw settings 100 150 3 c2;
                                   (upper, c4) = scanUnitRange reg gw settings 170 200 3 c3
                               in (Inr (smartlink @ lower @ upper), c4)))
                         else (Inr devices, c1))))"

section \<open>Notions used in the statements\<close>

text \<open>A response that rejects the promise of the request.\<close>

definition failed :: "response \<Rightarrow> bool" where
  "failed resp = (case resp of Reply body \<Rightarrow> False | _ \<Rightarrow> True)"

text \<open>
  Sample inputs: a fresh client, a gateway that answers every read with zeroes except
  for the start registers listed, which time out, and a stand-in for the number
  operations.
\<close>

definition client0 :: client where
  "client0 = \<lparr>cl_unitId = 1, cl_log = []\<rparr>"

definition gw_zeros_except :: "nat list \<Rightarrow> gateway" where
  "gw_zeros_except dead h req =
     (case req of
        ReadHoldingRegisters u start count \<Rightarrow>
          if start \<in> set dead then Timeout else Reply (replicate (2 * count) 0)
      | WriteSingleRegister u r v \<Rightarrow> Reply [])"

definition ops_sample :: "nat number_ops" where
  "ops_sample =
     \<lparr>float32 = unat, times100 = (\<lambda>x. x * 100), bigint_div1000 = (\<lambda>v. unat v div 1000)\<rparr>"

text \<open>
  The unit a request is addressed to. A device-type read is a read of register 31024;
  it fails for \<open>readDeviceType\<close> when the promise is rejected or the body is too short
  for \<open>readUInt16BE(0)\<close>. \<open>trailingFailures\<close> counts the failed device-type reads at the
  end of a list of transactions, back to the last one that was answered.
\<close>

definition req_unit :: "request \<Rightarrow> nat" where
  "req_unit req =
     (case req of ReadHoldingRegisters u start count \<Rightarrow> u | WriteSingleRegister u r v \<Rightarrow> u)"

definition isTypeRead :: "transaction \<Rightarrow> bool" where
  "isTypeRead t =
     (case fst t of
        ReadHoldingRegisters u start count \<Rightarrow> start = REG_DEVICE_TYPE
      | WriteSingleRegister u r v \<Rightarrow> False)"

definition typeReadFailed :: "transaction \<Rightarrow> bool" where
  "typeReadFailed t = (case snd t of Reply body \<Rightarrow> length body < 2 | _ \<Rightarrow> True)"

definition typeReads :: "transaction list \<Rightarrow> transaction list" where
  "typeReads ts = filter isTypeRead ts"

definition trailingFailures :: "transaction list \<Rightarrow> nat" where
  "trailingFailures ts = length (takeWhile typeReadFailed (rev (typeReads ts)))"

text \<open>A sample registry with one model, and sample settings.\<close>

definition model_sample :: PowerTagModelConfig where
  "model_sample = \<lparr>mc_typeId = 41, mc_model = ''A9MEM1541'', mc_name = ''PowerTag M63''\<rparr>"

definition reg_sample :: "(string list, string list) registry" where
  "reg_sample =
     \<lparr>POWERTAG_MODELS = (\<lambda>t. if t = 41 then Some model_sample else None),
      getModelByReference = (\<lambda>r. if r = ''A9MEM1541'' then Some model_sample else None),
      getCapabilitiesForModel = (\<lambda>m. [''measure_power'']),
      getCapabilityOptionsForModel = (\<lambda>m. [])\<rparr>"

definition settings_sample :: PowerTagSettings where
  "settings_sample = \<lparr>address = ''192.168.1.10'', port = 502, polling = 5\<rparr>"

text \<open>
  What a scan of the units from \<open>lo\<close> up to, not including, \<open>hi\<close> leaves behind: the
  transactions \<open>ts\<close> it made and the devices \<open>new\<close> it found. Every request and every
  device is for a unit of the range, devices and device-type reads come in ascending
  order of unit id, and every device carries the type id that the device-type read of
  its unit returned, which is neither 0 nor 65535.
\<close>

definition scanned ::
  "nat \<Rightarrow> nat \<Rightarrow> transaction list \<Rightarrow> ('cap, 'opt) DeviceEntry list \<Rightarrow> bool" where
  "scanned lo hi ts new =
     ((\<forall>d\<in>set new. lo \<le> store_unitId d \<and> store_unitId d < hi) \<and>
      sorted_wrt (<) (map store_unitId new) \<and>
      (\<forall>t\<in>set ts. lo \<le> req_unit (fst t) \<and> req_unit (fst t) < hi) \<and>
      sorted_wrt (<) (map (req_unit \<circ> fst) (typeReads ts)) \<and>
      (\<forall>d\<in>set new. \<exists>body.
          (ReadHoldingRegisters (store_unitId d) REG_DEVICE_TYPE 1, Reply body) \<in> set ts \<and>
          readUInt16BE body 0 = Inr (store_typeId d) \<and>
          store_typeId d \<noteq> 0 \<and> store_typeId d \<noteq> 65535))"

text \<open>
  The address table of a Panel Server as one buffer of 495 registers, two bytes each:
  register \<open>504 + k\<close> is at bytes \<open>2 k\<close> and \<open>2 k + 1\<close>, and slot \<open>s\<close> starts at register
  \<open>504 + (s - 1) * 5\<close>. \<open>slot_value\<close> is the 16-bit big-endian value of the first
  register of a slot, \<open>occupied_slots\<close> the slots from 1 to 99 whose value is neither 0
  nor 65535, with their values, in ascending order.
\<close>

definition slot_value :: "byte list \<Rightarrow> nat \<Rightarrow> nat" where
  "slot_value table s =
     unat (table ! (2 * ((s - 1) * 5))) * 256 + unat (table ! (2 * ((s - 1) * 5) + 1))"

definition occupied_slots :: "byte list \<Rightarrow> (nat \<times> nat) list" where
  "occupied_slots table =
     map (\<lambda>s. (s, slot_value table s))
       (filter (\<lambda>s. slot_value table s \<noteq> 0 \<and> slot_value table s \<noteq> 65535) [1..<100])"

text \<open>
  A sample Panel Server: unit 255 answers reads inside the address table from the given
  table image; every other unit answers the commercial-reference read with "A9MEM1541"
  and lets every other request time out.
\<close>

definition gw_panel :: "byte list \<Rightarrow> gateway" where
  "gw_panel table h req =
     (case req of
        ReadHoldingRegisters u start count \<Rightarrow>
          if u = 255 then
            (if 504 \<le> start \<and> start + count \<le> 999
             then Reply (take (2 * count) (drop (2 * (start - 504)) table))
             else ModbusException 2)
          else if start = REG_COMMERCIAL_REF
          then Reply ([65, 57, 77, 69, 77, 49, 53, 52, 49] @ replicate 23 0)
          else Timeout
      | WriteSingleRegister u r v \<Rightarrow> Timeout)"

definition table_slot5 :: "byte list" where
  "table_slot5 = replicate 40 0 @ [0, 42] @ replicate 948 0"

definition table_twice :: "byte list" where
  "table_twice = [0, 42] @ replicate 8 0 @ [0, 42] @ replicate 978 0"

definition table_two :: "byte list" where
  "table_two = [0, 42] @ replicate 8 0 @ [0, 43] @ replicate 978 0"

definition table_150 :: "byte list" where
  "table_150 = [0, 150] @ replicate 988 0"

definition table_300 :: "byte list" where
  "table_300 = [1, 44] @ replicate 988 0"

text \<open>
  A sample gateway with an address table and two devices that answer the range scan only:
  unit 255 answers reads inside the address table from the given table image; units 150
  and 151 answer the device-type read with type 41; every other request times out.
\<close>

definition gw_mixed :: "byte list \<Rightarrow> gateway" where
  "gw_mixed table h req =
     (case req of
        ReadHoldingRegisters u start count \<Rightarrow>
          if u = 255 then
            (if 504 \<le> start \<and> start + count \<le> 999
             then Reply (take (2 * count) (drop (2 * (start - 504)) table))
             else ModbusException 2)
          else if start = REG_DEVICE_TYPE \<and> (u = 150 \<or> u = 151)
          then Reply [0, 41]
          else Timeout
      | WriteSingleRegister u r v \<Rightarrow> Timeout)"

section \<open>Basic facts about transactions\<close>

lemmas REG_defs =
  REG_CURRENT_L1_def REG_VOLTAGE_LN_1_def REG_VOLTAGE_LL_1_def REG_POWER_L1_def
  REG_POWER_FACTOR_def REG_FREQUENCY_def REG_TEMPERATURE_def REG_ENERGY_TOTAL_def
  REG_DEVICE_TYPE_def REG_DEVICE_NAME_def REG_PAS_DEVICE_ADDRESS_def REG_COMMERCIAL_REF_def
  REG_HEATTAG_TEMP_def REG_HEATTAG_HUMIDITY_def REG_HEATTAG_ALARM_def REG_DI1_STATUS_def
  REG_DI2_STATUS_def REG_DO1_CMD_def REG_DO1_STATUS_def

lemma request_log:
  "cl_log (snd (request gw req c)) = cl_log c @ [(req, gw (cl_log c) req)]"
  by (simp add: request_def Let_def)

lemma request_unitId: "cl_unitId (snd (request gw req c)) = cl_unitId c"
  by (simp add: request_def Let_def)

lemma request_fst: "fst (request gw req c) = settle (gw (cl_log c) req)"
  by (simp add: request_def Let_def)

lemma transactions_append: "cl_log c' = cl_log c @ ts \<Longrightarrow> transactions c c' = ts"
  by (simp add: transactions_def)

section \<open>The output command\<close>

text \<open>
  C8: \<open>writeControlIOOutput\<close> with \<open>true\<close> issues exactly one request, a single-register
  write of value 2 to register 37051, and with \<open>false\<close> exactly one single-register write
  of value 1 to the same register, whatever the gateway answers.
\<close>

theorem writeControlIOOutput_issues:
  "issued c (snd (writeControlIOOutput gw True c)) =
     [WriteSingleRegister (cl_unitId c) 37051 2] \<and>
   issued c (snd (writeControlIOOutput gw False c)) =
     [WriteSingleRegister (cl_unitId c) 37051 1]"
  by (simp add: writeControlIOOutput_def writeSingleRegister_def request_def Let_def
      issued_def transactions_def REG_DO1_CMD_def split: sum.splits prod.splits)

lemma parseAscii_loop_takeWhile:
  "i \<le> length buf \<Longrightarrow>
   parseAscii_loop buf i str = str @ map fromCharCode (takeWhile (\<lambda>b. b \<noteq> 0) (drop i buf))"
proof (induction buf i str rule: parseAscii_loop.induct)
  case (1 buf i str)
  show ?case
  proof (cases "i < length buf")
    case False
    with 1 show ?thesis by (simp add: parseAscii_loop.simps)
  next
    case True
    then have d: "drop i buf = buf ! i # drop (Suc i) buf"
      by (simp add: Cons_nth_drop_Suc)
    show ?thesis
    proof (cases "buf ! i = 0")
      case True
      with \<open>i < length buf\<close> d show ?thesis by (simp add: parseAscii_loop.simps)
    next
      case False
      with \<open>i < length buf\<close> d "1.IH" [of "buf ! i"] show ?thesis
        by (subst parseAscii_loop.simps) simp
    qed
  qed
qed

lemma trim_split:
  "\<exists>l r. s = l @ trim s @ r \<and> list_all isWhiteSpace l \<and> list_all isWhiteSpace r"
proof -
  let ?t = "dropWhile isWhiteSpace s"
  let ?l = "takeWhile isWhiteSpace s"
  let ?r = "rev (takeWhile isWhiteSpace (rev ?t))"
  have "rev (dropWhile isWhiteSpace (rev ?t)) @ ?r = rev (rev ?t)"
    by (simp only: rev_append [symmetric] takeWhile_dropWhile_id)
  then have t: "?t = trim s @ ?r"
    by (simp add: trim_def)
  have "s = ?l @ ?t" by simp
  with t have "s = ?l @ trim s @ ?r" by simp
  moreover have "list_all isWhiteSpace ?l"
    by (auto simp: list_all_iff dest: set_takeWhileD)
  moreover have "list_all isWhiteSpace ?r"
    by (auto simp: list_all_iff dest: set_takeWhileD)
  ultimately show ?thesis by blast
qed

lemma trim_ends:
  "trim s = [] \<or> (\<not> isWhiteSpace (hd (trim s)) \<and> \<not> isWhiteSpace (last (trim s)))"
proof (cases "trim s = []")
  case True
  then show ?thesis by simp
next
  case False
  let ?t = "dropWhile isWhiteSpace s"
  let ?u = "dropWhile isWhiteSpace (rev ?t)"
  from False have u: "?u \<noteq> []" by (simp add: trim_def)
  then have "\<not> isWhiteSpace (hd ?u)" by (rule hd_dropWhile)
  with u have l: "\<not> isWhiteSpace (last (trim s))"
    by (simp add: trim_def last_rev)
  have "?u = []" if "?t = []" by (simp only: that rev.simps dropWhile.simps)
  with u have ne: "?t \<noteq> []" by blast
  then have h: "\<not> isWhiteSpace (hd ?t)" by (rule hd_dropWhile)
  have "rev ?t = takeWhile isWhiteSpace (rev ?t) @ ?u" by simp
  then have "last (rev ?t) = last ?u" using u by (metis last_appendR)
  with ne u have "hd ?t = hd (trim s)"
    by (simp add: trim_def hd_rev last_rev)
  with h l show ?thesis by simp
qed

text \<open>
  C7: for every buffer \<open>parseAsciiBuffer\<close> returns the characters before the first zero
  byte (all of them when there is none), each with the code of its byte, trimmed: the
  result is that string without a leading and a trailing run of white space, and it
  neither starts nor ends with white space. Bytes that are not white space, printable or
  not, are kept as they are. The function has no failing branch. The 32 bytes of
  "A9MEM1560" followed by zeroes decode to "A9MEM1560", and the bytes SPACE, TAB, "A",
  0x01, "B", NBSP, zero, "C" decode to "A", 0x01, "B".
\<close>

theorem parseAsciiBuffer_spec:
  "parseAsciiBuffer buf = trim (map fromCharCode (takeWhile (\<lambda>b. b \<noteq> 0) buf)) \<and>
   (\<exists>l r. map fromCharCode (takeWhile (\<lambda>b. b \<noteq> 0) buf) = l @ parseAsciiBuffer buf @ r \<and>
          list_all isWhiteSpace l \<and> list_all isWhiteSpace r) \<and>
   (parseAsciiBuffer buf = [] \<or>
      (\<not> isWhiteSpace (hd (parseAsciiBuffer buf)) \<and> \<not> isWhiteSpace (last (parseAsciiBuffer buf)))) \<and>
   (of_char (fromCharCode b) :: nat) = unat b \<and>
   parseAsciiBuffer ([65, 57, 77, 69, 77, 49, 53, 54, 48] @ replicate 23 0) = ''A9MEM1560'' \<and>
   parseAsciiBuffer [32, 9, 65, 1, 66, 160, 0, 67] = [CHR ''A'', CHR 0x01, CHR ''B'']"
proof -
  have np: "parseAsciiBuffer [32, 9, 65, 1, 66, 160, 0, 67] = [CHR ''A'', CHR 0x01, CHR ''B'']"
    by code_simp
  have eq: "parseAsciiBuffer buf = trim (map fromCharCode (takeWhile (\<lambda>b. b \<noteq> 0) buf))"
    by (simp add: parseAsciiBuffer_def parseAscii_loop_takeWhile)
  have ex: "parseAsciiBuffer ([65, 57, 77, 69, 77, 49, 53, 54, 48] @ replicate 23 0) = ''A9MEM1560''"
    by code_simp
  have cu: "(of_char (fromCharCode b) :: nat) = unat b"
    using unsigned_less [of b, where ?'a = nat] by (simp add: fromCharCode_def)
  show ?thesis
    unfolding eq using trim_split trim_ends ex [unfolded eq] cu np [unfolded eq] by blast
qed

lemma issueReads_trace:
  "\<exists>ts. cl_log (snd (issueReads gw rs c)) = cl_log c @ ts \<and>
        map fst ts = map (\<lambda>(start, count). ReadHoldingRegisters (cl_unitId c) start count) rs \<and>
        fst (issueReads gw rs c) = map (settle \<circ> snd) ts \<and>
        cl_unitId (snd (issueReads gw rs c)) = cl_unitId c"
proof (induction rs arbitrary: c)
  case Nil
  then show ?case by simp
next
  case (Cons r rs)
  obtain start count where r: "r = (start, count)" by (cases r)
  let ?req = "ReadHoldingRegisters (cl_unitId c) start count"
  let ?c1 = "snd (request gw ?req c)"
  from Cons.IH [of ?c1] obtain ts where
    ts: "cl_log (snd (issueReads gw rs ?c1)) = cl_log ?c1 @ ts"
      "map fst ts = map (\<lambda>(start, count). ReadHoldingRegisters (cl_unitId ?c1) start count) rs"
      "fst (issueReads gw rs ?c1) = map (settle \<circ> snd) ts"
      "cl_unitId (snd (issueReads gw rs ?c1)) = cl_unitId ?c1"
    by blast
  have "cl_log (snd (issueReads gw (r # rs) c)) = cl_log c @ ((?req, gw (cl_log c) ?req) # ts)"
    using ts(1) by (simp add: r readHoldingRegisters_def split_beta request_log)
  moreover have "map fst ((?req, gw (cl_log c) ?req) # ts) =
      map (\<lambda>(start, count). ReadHoldingRegisters (cl_unitId c) start count) (r # rs)"
    using ts(2) by (simp add: r request_unitId)
  moreover have "fst (issueReads gw (r # rs) c) = map (settle \<circ> snd) ((?req, gw (cl_log c) ?req) # ts)"
    using ts(3) by (simp add: r readHoldingRegisters_def split_beta request_fst)
  moreover have "cl_unitId (snd (issueReads gw (r # rs) c)) = cl_unitId c"
    using ts(4) by (simp add: r readHoldingRegisters_def split_beta request_unitId)
  ultimately show ?case by blast
qed

lemma issueReads_issued:
  "issued c (snd (issueReads gw rs c)) =
     map (\<lambda>(start, count). ReadHoldingRegisters (cl_unitId c) start count) rs"
  using issueReads_trace [of gw rs c] by (auto simp: issued_def transactions_def)

lemma issueReads_fst:
  "fst (issueReads gw rs c) = map settle (replies c (snd (issueReads gw rs c)))"
  using issueReads_trace [of gw rs c] by (auto simp: replies_def transactions_def)

lemma Promise_all_Inr: "Promise_all ps = Inr xs \<Longrightarrow> ps = map Inr xs"
proof (induction ps arbitrary: xs)
  case Nil
  then show ?case by simp
next
  case (Cons p ps)
  then show ?case
    by (cases p) (auto simp: andThen_def split: sum.splits)
qed

lemma Promise_all_failed:
  "\<exists>resp\<in>set rs. failed resp \<Longrightarrow> \<exists>e. Promise_all (map settle rs) = Inl e"
proof (rule ccontr)
  assume f: "\<exists>resp\<in>set rs. failed resp" and "\<nexists>e. Promise_all (map settle rs) = Inl e"
  then obtain xs where "Promise_all (map settle rs) = Inr xs"
    by (cases "Promise_all (map settle rs)") auto
  then have m: "map settle rs = map Inr xs" by (rule Promise_all_Inr)
  from f obtain resp where r: "resp \<in> set rs" "failed resp" by blast
  then have "settle resp \<in> set (map Inr xs)" using m by (metis image_eqI set_map)
  with r(2) show False by (cases resp) (auto simp: settle_def failed_def)
qed

lemma andThen_Inl [simp]: "andThen (Inl e) f = Inl e"
  by (simp add: andThen_def)

lemma andThen_Inr [simp]: "andThen (Inr x) f = f x"
  by (simp add: andThen_def)

lemma poll_all_or_nothing_aux:
  assumes "r = (andThen (Promise_all (fst (issueReads gw rs c))) f, snd (issueReads gw rs c))"
  shows "issued c (snd r) =
           map (\<lambda>(start, count). ReadHoldingRegisters (cl_unitId c) start count) rs"
    and "\<exists>resp\<in>set (replies c (snd r)). failed resp \<Longrightarrow> \<exists>e. fst r = Inl e"
proof -
  show "issued c (snd r) =
           map (\<lambda>(start, count). ReadHoldingRegisters (cl_unitId c) start count) rs"
    by (simp only: assms snd_conv issueReads_issued)
  assume "\<exists>resp\<in>set (replies c (snd r)). failed resp"
  then have "\<exists>resp\<in>set (replies c (snd (issueReads gw rs c))). failed resp"
    by (simp only: assms snd_conv)
  then obtain e where "Promise_all (fst (issueReads gw rs c)) = Inl e"
    unfolding issueReads_fst using Promise_all_failed by blast
  then show "\<exists>e. fst r = Inl e"
    by (simp add: assms)
qed

lemma readAllRegisters_reads:
  "\<exists>f. readAllRegisters ops gw voltageMode c =
     (andThen (Promise_all (fst (issueReads gw
        [(2999, 6), (if voltageMode = ''L-N'' then 3027 else 3019, 6), (3053, 8), (3083, 2),
         (3109, 2), (3131, 2), (3203, 4)] c))) f,
      snd (issueReads gw
        [(2999, 6), (if voltageMode = ''L-N'' then 3027 else 3019, 6), (3053, 8), (3083, 2),
         (3109, 2), (3131, 2), (3203, 4)] c))"
  unfolding readAllRegisters_def Let_def split_beta REG_defs if_distrib [of "\<lambda>x. (x, _)"]
  by (rule exI, rule refl)

lemma readHeatTagRegisters_reads:
  "\<exists>f. readHeatTagRegisters ops gw c =
     (andThen (Promise_all (fst (issueReads gw [(4001, 2), (4007, 2), (3323, 1)] c))) f,
      snd (issueReads gw [(4001, 2), (4007, 2), (3323, 1)] c))"
  unfolding readHeatTagRegisters_def Let_def split_beta REG_defs
  by (rule exI, rule refl)

lemma readControl2DIRegisters_reads:
  "\<exists>f. readControl2DIRegisters gw c =
     (andThen (Promise_all (fst (issueReads gw [(34065, 1), (34165, 1)] c))) f,
      snd (issueReads gw [(34065, 1), (34165, 1)] c))"
  unfolding readControl2DIRegisters_def Let_def split_beta REG_defs
  by (rule exI, rule refl)

lemma readControlIORegisters_reads:
  "\<exists>f. readControlIORegisters gw c =
     (andThen (Promise_all (fst (issueReads gw [(34065, 1), (37052, 1)] c))) f,
      snd (issueReads gw [(34065, 1), (37052, 1)] c))"
  unfolding readControlIORegisters_def Let_def split_beta REG_defs
  by (rule exI, rule refl)

lemma readAllRegisters_issued:
  "issued c (snd (readAllRegisters ops gw voltageMode c)) =
     [ReadHoldingRegisters (cl_unitId c) 2999 6,
      ReadHoldingRegisters (cl_unitId c) (if voltageMode = ''L-N'' then 3027 else 3019) 6,
      ReadHoldingRegisters (cl_unitId c) 3053 8,
      ReadHoldingRegisters (cl_unitId c) 3083 2,
      ReadHoldingRegisters (cl_unitId c) 3109 2,
      ReadHoldingRegisters (cl_unitId c) 3131 2,
      ReadHoldingRegisters (cl_unitId c) 3203 4]"
proof -
  from readAllRegisters_reads [of ops gw voltageMode c] obtain f where
    "readAllRegisters ops gw voltageMode c =
     (andThen (Promise_all (fst (issueReads gw
        [(2999, 6), (if voltageMode = ''L-N'' then 3027 else 3019, 6), (3053, 8), (3083, 2),
         (3109, 2), (3131, 2), (3203, 4)] c))) f,
      snd (issueReads gw
        [(2999, 6), (if voltageMode = ''L-N'' then 3027 else 3019, 6), (3053, 8), (3083, 2),
         (3109, 2), (3131, 2), (3203, 4)] c))" ..
  from poll_all_or_nothing_aux(1) [OF this] show ?thesis by simp
qed

text \<open>
  C5: each of the four polls makes all its block reads, in order, whatever the answers
  to the earlier ones are (they are issued before any result is awaited), and when the
  response to any one of them is a timeout or an exception the poll as a whole is
  rejected: a poll result is returned only when every block read was answered.
\<close>

theorem poll_all_or_nothing:
  "issued c (snd (readAllRegisters ops gw voltageMode c)) =
     [ReadHoldingRegisters (cl_unitId c) 2999 6,
      ReadHoldingRegisters (cl_unitId c) (if voltageMode = ''L-N'' then 3027 else 3019) 6,
      ReadHoldingRegisters (cl_unitId c) 3053 8,
      ReadHoldingRegisters (cl_unitId c) 3083 2,
      ReadHoldingRegisters (cl_unitId c) 3109 2,
      ReadHoldingRegisters (cl_unitId c) 3131 2,
      ReadHoldingRegisters (cl_unitId c) 3203 4] \<and>
   ((\<exists>resp\<in>set (replies c (snd (readAllRegisters ops gw voltageMode c))). failed resp) \<longrightarrow>
      (\<exists>e. fst (readAllRegisters ops gw voltageMode c) = Inl e)) \<and>
   issued c (snd (readHeatTagRegisters ops gw c)) =
     [ReadHoldingRegisters (cl_unitId c) 4001 2,
      ReadHoldingRegisters (cl_unitId c) 4007 2,
      ReadHoldingRegisters (cl_unitId c) 3323 1] \<and>
   ((\<exists>resp\<in>set (replies c (snd (readHeatTagRegisters ops gw c))). failed resp) \<longrightarrow>
      (\<exists>e. fst (readHeatTagRegisters ops gw c) = Inl e)) \<and>
   issued c (snd (readControl2DIRegisters gw c)) =
     [ReadHoldingRegisters (cl_unitId c) 34065 1,
      ReadHoldingRegisters (cl_unitId c) 34165 1] \<and>
   ((\<exists>resp\<in>set (replies c (snd (readControl2DIRegisters gw c))). failed resp) \<longrightarrow>
      (\<exists>e. fst (readControl2DIRegisters gw c) = Inl e)) \<and>
   issued c (snd (readControlIORegisters gw c)) =
     [ReadHoldingRegisters (cl_unitId c) 34065 1,
      ReadHoldingRegisters (cl_unitId c) 37052 1] \<and>
   ((\<exists>resp\<in>set (replies c (snd (readControlIORegisters gw c))). failed resp) \<longrightarrow>
      (\<exists>e. fst (readControlIORegisters gw c) = Inl e))"
proof -
  from readAllRegisters_reads [of ops gw voltageMode c] obtain f1 where
    e: "readAllRegisters ops gw voltageMode c =
     (andThen (Promise_all (fst (issueReads gw
        [(2999, 6), (if voltageMode = ''L-N'' then 3027 else 3019, 6), (3053, 8), (3083, 2),
         (3109, 2), (3131, 2), (3203, 4)] c))) f1,
      snd (issueReads gw
        [(2999, 6), (if voltageMode = ''L-N'' then 3027 else 3019, 6), (3053, 8), (3083, 2),
         (3109, 2), (3131, 2), (3203, 4)] c))" ..
  from readHeatTagRegisters_reads [of ops gw c] obtain f2 where
    h: "readHeatTagRegisters ops gw c =
     (andThen (Promise_all (fst (issueReads gw [(4001, 2), (4007, 2), (3323, 1)] c))) f2,
      snd (issueReads gw [(4001, 2), (4007, 2), (3323, 1)] c))" ..
  from readControl2DIRegisters_reads [of gw c] obtain f3 where
    d: "readControl2DIRegisters gw c =
     (andThen (Promise_all (fst (issueReads gw [(34065, 1), (34165, 1)] c))) f3,
      snd (issueReads gw [(34065, 1), (34165, 1)] c))" ..
  from readControlIORegisters_reads [of gw c] obtain f4 where
    i: "readControlIORegisters gw c =
     (andThen (Promise_all (fst (issueReads gw [(34065, 1), (37052, 1)] c))) f4,
      snd (issueReads gw [(34065, 1), (37052, 1)] c))" ..
  note a = poll_all_or_nothing_aux
  from a(1) [OF e] a(2) [OF e] a(1) [OF h] a(2) [OF h] a(1) [OF d] a(2) [OF d]
    a(1) [OF i] a(2) [OF i]
  show ?thesis by simp
qed

lemma gw_zeros_except_read:
  "gw_zeros_except dead h (ReadHoldingRegisters u start count) =
     (if start \<in> set dead then Timeout else Reply (replicate (2 * count) 0))"
  by (simp add: gw_zeros_except_def)

lemmas poll_eval =
  split_beta Let_def readHoldingRegisters_def request_def replies_def issued_def
  transactions_def client0_def failed_def gw_zeros_except_read REG_defs

text \<open>
  C10: \<open>readAllRegisters\<close> compares the voltage mode with \<open>'L-N'\<close> only. For every
  other mode, whatever it means, the second block read is the six registers from
  3019 (L-L); for \<open>'L-N'\<close> it is the six registers from 3027. The function takes no
  model, so the six voltage registers are read in every poll of the energy family.
\<close>

theorem voltage_block:
  "(voltageMode \<noteq> ''L-N'' \<longrightarrow>
      issued c (snd (readAllRegisters ops gw voltageMode c)) =
        [ReadHoldingRegisters (cl_unitId c) 2999 6,
         ReadHoldingRegisters (cl_unitId c) 3019 6,
         ReadHoldingRegisters (cl_unitId c) 3053 8,
         ReadHoldingRegisters (cl_unitId c) 3083 2,
         ReadHoldingRegisters (cl_unitId c) 3109 2,
         ReadHoldingRegisters (cl_unitId c) 3131 2,
         ReadHoldingRegisters (cl_unitId c) 3203 4]) \<and>
   (voltageMode = ''L-N'' \<longrightarrow>
      issued c (snd (readAllRegisters ops gw voltageMode c)) =
        [ReadHoldingRegisters (cl_unitId c) 2999 6,
         ReadHoldingRegisters (cl_unitId c) 3027 6,
         ReadHoldingRegisters (cl_unitId c) 3053 8,
         ReadHoldingRegisters (cl_unitId c) 3083 2,
         ReadHoldingRegisters (cl_unitId c) 3109 2,
         ReadHoldingRegisters (cl_unitId c) 3131 2,
         ReadHoldingRegisters (cl_unitId c) 3203 4])"
  by (simp add: readAllRegisters_issued)

theorem poll_all_or_nothing_witness:
  "(\<exists>resp\<in>set (replies client0 (snd (readAllRegisters ops_sample (gw_zeros_except [3109]) ''L-L'' client0))). failed resp) \<and>
   (\<exists>e. fst (readAllRegisters ops_sample (gw_zeros_except [3109]) ''L-L'' client0) = Inl e) \<and>
   (\<exists>resp\<in>set (replies client0 (snd (readHeatTagRegisters ops_sample (gw_zeros_except [4007]) client0))). failed resp) \<and>
   (\<exists>e. fst (readHeatTagRegisters ops_sample (gw_zeros_except [4007]) client0) = Inl e) \<and>
   (\<exists>resp\<in>set (replies client0 (snd (readControl2DIRegisters (gw_zeros_except [34165]) client0))). failed resp) \<and>
   (\<exists>e. fst (readControl2DIRegisters (gw_zeros_except [34165]) client0) = Inl e) \<and>
   (\<exists>resp\<in>set (replies client0 (snd (readControlIORegisters (gw_zeros_except [34065]) client0))). failed resp) \<and>
   (\<exists>e. fst (readControlIORegisters (gw_zeros_except [34065]) client0) = Inl e)"
proof -
  have 1: "\<exists>resp\<in>set (replies client0 (snd (readAllRegisters ops_sample (gw_zeros_except [3109]) ''L-L'' client0))). failed resp"
    by (simp add: readAllRegisters_def poll_eval)
  have 2: "\<exists>resp\<in>set (replies client0 (snd (readHeatTagRegisters ops_sample (gw_zeros_except [4007]) client0))). failed resp"
    by (simp add: readHeatTagRegisters_def poll_eval)
  have 3: "\<exists>resp\<in>set (replies client0 (snd (readControl2DIRegisters (gw_zeros_except [34165]) client0))). failed resp"
    by (simp add: readControl2DIRegisters_def poll_eval)
  have 4: "\<exists>resp\<in>set (replies client0 (snd (readControlIORegisters (gw_zeros_except [34065]) client0))). failed resp"
    by (simp add: readControlIORegisters_def poll_eval)
  note t1 = poll_all_or_nothing [of client0 ops_sample "gw_zeros_except [3109]" "''L-L''"]
  note t2 = poll_all_or_nothing [of client0 ops_sample "gw_zeros_except [4007]"]
  note t3 = poll_all_or_nothing [of client0 ops_sample "gw_zeros_except [34165]"]
  note t4 = poll_all_or_nothing [of client0 ops_sample "gw_zeros_except [34065]"]
  note c2 = conjunct2
  have 5: "\<exists>e. fst (readAllRegisters ops_sample (gw_zeros_except [3109]) ''L-L'' client0) = Inl e"
    by (rule t1 [THEN c2, THEN conjunct1, THEN mp, OF 1])
  have 6: "\<exists>e. fst (readHeatTagRegisters ops_sample (gw_zeros_except [4007]) client0) = Inl e"
    by (rule t2 [THEN c2, THEN c2, THEN c2, THEN conjunct1, THEN mp, OF 2])
  have 7: "\<exists>e. fst (readControl2DIRegisters (gw_zeros_except [34165]) client0) = Inl e"
    by (rule t3 [THEN c2, THEN c2, THEN c2, THEN c2, THEN c2, THEN conjunct1, THEN mp, OF 3])
  have 8: "\<exists>e. fst (readControlIORegisters (gw_zeros_except [34065]) client0) = Inl e"
    by (rule t4 [THEN c2, THEN c2, THEN c2, THEN c2, THEN c2, THEN c2, THEN c2, THEN mp, OF 4])
  from 1 2 3 4 5 6 7 8 show ?thesis by (intro conjI)
qed


theorem voltage_block_witness:
  "''none'' \<noteq> ''L-N'' \<and>
   issued client0 (snd (readAllRegisters ops_sample (gw_zeros_except []) ''none'' client0)) =
     [ReadHoldingRegisters 1 2999 6, ReadHoldingRegisters 1 3019 6, ReadHoldingRegisters 1 3053 8,
      ReadHoldingRegisters 1 3083 2, ReadHoldingRegisters 1 3109 2, ReadHoldingRegisters 1 3131 2,
      ReadHoldingRegisters 1 3203 4] \<and>
   issued client0 (snd (readAllRegisters ops_sample (gw_zeros_except []) ''L-N'' client0)) =
     [ReadHoldingRegisters 1 2999 6, ReadHoldingRegisters 1 3027 6, ReadHoldingRegisters 1 3053 8,
      ReadHoldingRegisters 1 3083 2, ReadHoldingRegisters 1 3109 2, ReadHoldingRegisters 1 3131 2,
      ReadHoldingRegisters 1 3203 4]"
proof -
  have n: "''none'' \<noteq> ''L-N''" by simp
  have u: "cl_unitId client0 = 1" by (simp add: client0_def)
  note a = voltage_block [of "''none''" client0 ops_sample "gw_zeros_except []",
      THEN conjunct1, THEN mp, OF n, unfolded u]
  note b = voltage_block [of "''L-N''" client0 ops_sample "gw_zeros_except []",
      THEN conjunct2, THEN mp, OF refl, unfolded u]
  from n a b show ?thesis by (intro conjI)
qed

section \<open>The range scan\<close>

lemma readDeviceType_eq:
  "readDeviceType gw c =
     (andThen (settle (gw (cl_log c) (ReadHoldingRegisters (cl_unitId c) REG_DEVICE_TYPE 1)))
        (\<lambda>buf. readUInt16BE buf 0),
      c\<lparr>cl_log := cl_log c @ [(ReadHoldingRegisters (cl_unitId c) REG_DEVICE_TYPE 1,
            gw (cl_log c) (ReadHoldingRegisters (cl_unitId c) REG_DEVICE_TYPE 1))]\<rparr>)"
  by (simp add: readDeviceType_def readHoldingRegisters_def request_def Let_def)

lemma readDeviceName_eq:
  "readDeviceName gw c =
     (andThen (settle (gw (cl_log c) (ReadHoldingRegisters (cl_unitId c) REG_DEVICE_NAME 10)))
        (\<lambda>buf. Inr (parseAsciiBuffer buf)),
      c\<lparr>cl_log := cl_log c @ [(ReadHoldingRegisters (cl_unitId c) REG_DEVICE_NAME 10,
            gw (cl_log c) (ReadHoldingRegisters (cl_unitId c) REG_DEVICE_NAME 10))]\<rparr>)"
  by (simp add: readDeviceName_def readHoldingRegisters_def request_def Let_def)

lemma readCommercialReference_eq:
  "readCommercialReference gw c =
     (andThen (settle (gw (cl_log c) (ReadHoldingRegisters (cl_unitId c) REG_COMMERCIAL_REF 16)))
        (\<lambda>buf. Inr (parseAsciiBuffer buf)),
      c\<lparr>cl_log := cl_log c @ [(ReadHoldingRegisters (cl_unitId c) REG_COMMERCIAL_REF 16,
            gw (cl_log c) (ReadHoldingRegisters (cl_unitId c) REG_COMMERCIAL_REF 16))]\<rparr>)"
  by (simp add: readCommercialReference_def readHoldingRegisters_def request_def Let_def)

lemma typeRead_settle:
  "andThen (settle resp) (\<lambda>buf. readUInt16BE buf 0) = Inl e \<Longrightarrow> typeReadFailed (req, resp)"
  "andThen (settle resp) (\<lambda>buf. readUInt16BE buf 0) = Inr v \<Longrightarrow>
     \<exists>body. resp = Reply body \<and> readUInt16BE body 0 = Inr v \<and> \<not> typeReadFailed (req, resp)"
  by (cases resp; simp add: settle_def typeReadFailed_def readUInt16BE_def split: if_splits)+

text \<open>The three ways one round of the scan loop can go.\<close>

lemma scanUnit_cases:
  fixes reg :: "('cap, 'opt) registry"
  assumes "scanUnit reg gw settings m u k devices c = (stop, k', devices', c')"
  obtains
    (failed) resp where
      "resp = gw (cl_log c) (ReadHoldingRegisters u REG_DEVICE_TYPE 1)"
      "cl_log c' = cl_log c @ [(ReadHoldingRegisters u REG_DEVICE_TYPE 1, resp)]"
      "typeReadFailed (ReadHoldingRegisters u REG_DEVICE_TYPE 1, resp)"
      "k' = k + 1" "devices' = devices" "stop = (m \<le> k + 1)"
  | (skipped) body v where
      "gw (cl_log c) (ReadHoldingRegisters u REG_DEVICE_TYPE 1) = Reply body"
      "cl_log c' = cl_log c @ [(ReadHoldingRegisters u REG_DEVICE_TYPE 1, Reply body)]"
      "readUInt16BE body 0 = Inr v"
      "v = 0 \<or> v = 65535 \<or> POWERTAG_MODELS reg v = None"
      "k' = 0" "devices' = devices" "\<not> stop"
  | (found) body v modelConfig nresp deviceName where
      "gw (cl_log c) (ReadHoldingRegisters u REG_DEVICE_TYPE 1) = Reply body"
      "cl_log c' = cl_log c @ [(ReadHoldingRegisters u REG_DEVICE_TYPE 1, Reply body),
                              (ReadHoldingRegisters u REG_DEVICE_NAME 10, nresp)]"
      "readUInt16BE body 0 = Inr v" "v \<noteq> 0" "v \<noteq> 65535"
      "POWERTAG_MODELS reg v = Some modelConfig"
      "k' = 0" "devices' = devices @ [buildDeviceEntry reg settings u v modelConfig deviceName]"
      "\<not> stop"
proof -
  let ?req = "ReadHoldingRegisters u REG_DEVICE_TYPE 1"
  let ?resp = "gw (cl_log c) ?req"
  let ?r = "andThen (settle ?resp) (\<lambda>buf. readUInt16BE buf 0)"
  let ?c2 = "c\<lparr>cl_unitId := u, cl_log := cl_log c @ [(?req, ?resp)]\<rparr>"
  have rd: "readDeviceType gw (setUnitId u c) = (?r, ?c2)"
    by (simp add: readDeviceType_eq setUnitId_def)
  show ?thesis
  proof (cases ?r)
    case (Inl e)
    with assms rd have f: "cl_log c' = cl_log c @ [(?req, ?resp)]" "k' = k + 1"
      "devices' = devices" "stop = (m \<le> k + 1)"
      by (auto simp: scanUnit_def scanUnit_try_def Let_def)
    from Inl have "typeReadFailed (?req, ?resp)" by (rule typeRead_settle)
    with f show ?thesis by (intro failed [OF refl])
  next
    case (Inr v)
    then obtain body where b: "?resp = Reply body" "readUInt16BE body 0 = Inr v"
      using typeRead_settle(2) by blast
    show ?thesis
    proof (cases "v = 0 \<or> v = 65535 \<or> POWERTAG_MODELS reg v = None")
      case True
      with assms rd Inr b have "cl_log c' = cl_log c @ [(?req, Reply body)]" "k' = 0"
        "devices' = devices" "\<not> stop"
        by (auto simp: scanUnit_def scanUnit_try_def Let_def split: if_splits)
      with b True show ?thesis using skipped by blast
    next
      case False
      then obtain modelConfig where mc: "POWERTAG_MODELS reg v = Some modelConfig" and
        v: "v \<noteq> 0" "v \<noteq> 65535" by auto
      let ?nreq = "ReadHoldingRegisters u REG_DEVICE_NAME 10"
      let ?nresp = "gw (cl_log ?c2) ?nreq"
      let ?name = "case andThen (settle ?nresp) (\<lambda>buf. Inr (parseAsciiBuffer buf)) of
                     Inl e \<Rightarrow> [] | Inr s \<Rightarrow> s"
      from assms rd Inr b mc v have
        "cl_log c' = cl_log c @ [(?req, Reply body), (?nreq, ?nresp)]" "k' = 0"
        "devices' = devices @ [buildDeviceEntry reg settings u v modelConfig ?name]" "\<not> stop"
        by (auto simp: scanUnit_def scanUnit_try_def Let_def readDeviceName_eq)
      with b v mc show ?thesis using found by blast
    qed
  qed
qed

lemma scan_loop_induct [case_names finished round]:
  fixes reg :: "('cap, 'opt) registry"
  assumes "\<And>unitId k devices c. \<not> unitId < endId \<Longrightarrow> P unitId k devices c (devices, c)"
    and "\<And>unitId k devices c stop k' devices' c'.
           unitId < endId \<Longrightarrow>
           scanUnit reg gw settings m unitId k devices c = (stop, k', devices', c') \<Longrightarrow>
           (\<not> stop \<Longrightarrow> P (unitId + 1) k' devices' c'
                        (scan_loop reg gw settings endId m (unitId + 1) k' devices' c')) \<Longrightarrow>
           P unitId k devices c
             (if stop then (devices', c')
              else scan_loop reg gw settings endId m (unitId + 1) k' devices' c')"
  shows "P unitId k devices c (scan_loop reg gw settings endId m unitId k devices c)"
proof (induction "endId - unitId" arbitrary: unitId k devices c)
  case 0
  then have n: "\<not> unitId < endId" by simp
  then have "scan_loop reg gw settings endId m unitId k devices c = (devices, c)"
    by (simp add: scan_loop.simps)
  with assms(1) [OF n] show ?case by simp
next
  case (Suc n)
  then have lt: "unitId < endId" by simp
  obtain stop k' devices' c' where
    s: "scanUnit reg gw settings m unitId k devices c = (stop, k', devices', c')"
    by (metis prod_cases4)
  from Suc(2) have "n = endId - (unitId + 1)" by simp
  then have "P (unitId + 1) k' devices' c'
      (scan_loop reg gw settings endId m (unitId + 1) k' devices' c')"
    by (rule Suc(1))
  with assms(2) [OF lt s] have "P unitId k devices c
             (if stop then (devices', c')
              else scan_loop reg gw settings endId m (unitId + 1) k' devices' c')"
    by blast
  moreover have "scan_loop reg gw settings endId m unitId k devices c =
      (if stop then (devices', c')
       else scan_loop reg gw settings endId m (unitId + 1) k' devices' c')"
    using lt s by (subst scan_loop.simps) simp
  ultimately show ?case by simp
qed

lemma scan_loop_all_fail:
  fixes reg :: "('cap, 'opt) registry"
  assumes fail: "\<forall>h u. failed (gw h (ReadHoldingRegisters u REG_DEVICE_TYPE 1))"
  shows "k < m \<longrightarrow>
     (\<exists>ts. cl_log (snd (scan_loop reg gw settings endId m unitId k devices c)) = cl_log c @ ts \<and>
        map fst ts = map (\<lambda>u. ReadHoldingRegisters u REG_DEVICE_TYPE 1)
                      [unitId ..< unitId + min (m - k) (endId - unitId)]) \<and>
     fst (scan_loop reg gw settings endId m unitId k devices c) = devices"
proof (induction unitId k devices c rule: scan_loop_induct [where reg = reg and gw = gw and
      settings = settings and m = m and endId = endId])
  case (finished unitId k devices c)
  then show ?case by simp
next
  case (round unitId k devices c stop k' devices' c')
  from round(2) show ?case
  proof (cases rule: scanUnit_cases)
    case (failed resp)
    show ?thesis
    proof
      assume km: "k < m"
      show "(\<exists>ts. cl_log (snd (if stop then (devices', c')
                else scan_loop reg gw settings endId m (unitId + 1) k' devices' c')) = cl_log c @ ts \<and>
            map fst ts = map (\<lambda>u. ReadHoldingRegisters u REG_DEVICE_TYPE 1)
                      [unitId ..< unitId + min (m - k) (endId - unitId)]) \<and>
          fst (if stop then (devices', c')
                else scan_loop reg gw settings endId m (unitId + 1) k' devices' c') = devices"
      proof (cases stop)
        case True
        with failed km have "min (m - k) (endId - unitId) = 1" using round(1) by auto
        with True failed show ?thesis by simp
      next
        case False
        with failed km have k': "k' < m" by simp
        from round(3) [OF False] k' obtain ts where
          ts: "cl_log (snd (scan_loop reg gw settings endId m (unitId + 1) k' devices' c')) =
                 cl_log c' @ ts"
            "map fst ts = map (\<lambda>u. ReadHoldingRegisters u REG_DEVICE_TYPE 1)
                      [unitId + 1 ..< unitId + 1 + min (m - k') (endId - (unitId + 1))]"
            "fst (scan_loop reg gw settings endId m (unitId + 1) k' devices' c') = devices'"
          by blast
        have e: "unitId + 1 + min (m - k') (endId - (unitId + 1)) =
              unitId + min (m - k) (endId - unitId)"
          using failed(4) km k' round(1) by simp
        have lt: "unitId < unitId + min (m - k) (endId - unitId)"
          using round(1) km by simp
        have "[unitId ..< unitId + min (m - k) (endId - unitId)] =
            unitId # [unitId + 1 ..< unitId + 1 + min (m - k') (endId - (unitId + 1))]"
        proof -
          from e have "Suc unitId + min (m - k') (endId - Suc unitId) =
              unitId + min (m - k) (endId - unitId)" by simp
          then show ?thesis
            by (simp only: Suc_eq_plus1 [symmetric] upt_conv_Cons [OF lt])
        qed
        then have "map fst ((ReadHoldingRegisters unitId REG_DEVICE_TYPE 1, resp) # ts) =
            map (\<lambda>u. ReadHoldingRegisters u REG_DEVICE_TYPE 1)
              [unitId ..< unitId + min (m - k) (endId - unitId)]"
          using ts(2) by simp
        moreover have "cl_log (snd (scan_loop reg gw settings endId m (unitId + 1) k' devices' c')) =
            cl_log c @ (ReadHoldingRegisters unitId REG_DEVICE_TYPE 1, resp) # ts"
          using ts(1) failed(2) by simp
        ultimately show ?thesis using False ts(3) failed(5) by auto
      qed
    qed
  next
    case (skipped body v)
    from fail have "failed (gw (cl_log c) (ReadHoldingRegisters unitId REG_DEVICE_TYPE 1))"
      by blast
    with skipped(1) show ?thesis by (simp add: failed_def)
  next
    case (found body v modelConfig nresp deviceName)
    from fail have "failed (gw (cl_log c) (ReadHoldingRegisters unitId REG_DEVICE_TYPE 1))"
      by blast
    with found(1) show ?thesis by (simp add: failed_def)
  qed
qed

lemma trailingFailures_snoc:
  "trailingFailures (ts @ [t]) =
     (if isTypeRead t then (if typeReadFailed t then trailingFailures ts + 1 else 0)
      else trailingFailures ts)"
  by (simp add: trailingFailures_def typeReads_def)

lemma isTypeRead_simps:
  "isTypeRead (ReadHoldingRegisters u REG_DEVICE_TYPE n, resp)"
  "\<not> isTypeRead (ReadHoldingRegisters u REG_DEVICE_NAME n, resp)"
  by (simp_all add: isTypeRead_def REG_defs)

lemma typeReadFailed_Reply:
  "readUInt16BE body 0 = Inr v \<Longrightarrow> \<not> typeReadFailed (req, Reply body)"
  by (simp add: typeReadFailed_def readUInt16BE_def split: if_splits)

lemma scan_loop_failures:
  fixes reg :: "('cap, 'opt) registry"
  shows "\<forall>pre. k = trailingFailures pre \<longrightarrow>
     (\<exists>ts. cl_log (snd (scan_loop reg gw settings endId m unitId k devices c)) = cl_log c @ ts \<and>
        (length (typeReads ts) = endId - unitId \<or>
         (m \<le> trailingFailures (pre @ ts) \<and> 0 < trailingFailures (pre @ ts))))"
proof (induction unitId k devices c rule: scan_loop_induct [where reg = reg and gw = gw and
      settings = settings and m = m and endId = endId])
  case (finished unitId k devices c)
  then show ?case by (simp add: typeReads_def)
next
  case (round unitId k devices c stop k' devices' c')
  let ?R = "if stop then (devices', c')
            else scan_loop reg gw settings endId m (unitId + 1) k' devices' c'"
  show ?case
  proof (intro allI impI)
    fix pre
    assume k: "k = trailingFailures pre"
    have step: "\<exists>ts. cl_log (snd ?R) = cl_log c @ ts \<and>
        (length (typeReads ts) = endId - unitId \<or>
         (m \<le> trailingFailures (pre @ ts) \<and> 0 < trailingFailures (pre @ ts)))"
      if ts1: "cl_log c' = cl_log c @ ts1" and n1: "length (typeReads ts1) = 1"
        and k': "k' = trailingFailures (pre @ ts1)" and st: "stop \<longrightarrow> m \<le> k' \<and> 0 < k'"
      for ts1
    proof (cases stop)
      case True
      with st ts1 k' show ?thesis by auto
    next
      case False
      from round(3) [OF False] k' obtain ts2 where
        ts2: "cl_log (snd (scan_loop reg gw settings endId m (unitId + 1) k' devices' c')) =
                cl_log c' @ ts2"
          "length (typeReads ts2) = endId - (unitId + 1) \<or>
           (m \<le> trailingFailures ((pre @ ts1) @ ts2) \<and> 0 < trailingFailures ((pre @ ts1) @ ts2))"
        by blast
      have "length (typeReads (ts1 @ ts2)) = 1 + length (typeReads ts2)"
        using n1 by (simp add: typeReads_def)
      with ts2(2) round(1) have
        "length (typeReads (ts1 @ ts2)) = endId - unitId \<or>
         (m \<le> trailingFailures (pre @ ts1 @ ts2) \<and> 0 < trailingFailures (pre @ ts1 @ ts2))"
        by auto
      moreover have "cl_log (snd ?R) = cl_log c @ ts1 @ ts2"
        using False ts2(1) ts1 by simp
      ultimately show ?thesis by blast
    qed
    from round(2) show "\<exists>ts. cl_log (snd ?R) = cl_log c @ ts \<and>
        (length (typeReads ts) = endId - unitId \<or>
         (m \<le> trailingFailures (pre @ ts) \<and> 0 < trailingFailures (pre @ ts)))"
    proof (cases rule: scanUnit_cases)
      case (failed resp)
      show ?thesis
      proof (rule step)
        show "cl_log c' = cl_log c @ [(ReadHoldingRegisters unitId REG_DEVICE_TYPE 1, resp)]"
          by (rule failed(2))
        show "length (typeReads [(ReadHoldingRegisters unitId REG_DEVICE_TYPE 1, resp)]) = 1"
          by (simp add: typeReads_def isTypeRead_simps)
        show "k' = trailingFailures (pre @ [(ReadHoldingRegisters unitId REG_DEVICE_TYPE 1, resp)])"
          using failed(3,4) k by (simp add: trailingFailures_snoc isTypeRead_simps)
        show "stop \<longrightarrow> m \<le> k' \<and> 0 < k'"
          using failed(4,6) by simp
      qed
    next
      case (skipped body v)
      show ?thesis
      proof (rule step)
        show "cl_log c' = cl_log c @ [(ReadHoldingRegisters unitId REG_DEVICE_TYPE 1, Reply body)]"
          by (rule skipped(2))
        show "length (typeReads [(ReadHoldingRegisters unitId REG_DEVICE_TYPE 1, Reply body)]) = 1"
          by (simp add: typeReads_def isTypeRead_simps)
        show "k' = trailingFailures (pre @ [(ReadHoldingRegisters unitId REG_DEVICE_TYPE 1, Reply body)])"
          using skipped(3,5) by (simp add: trailingFailures_snoc isTypeRead_simps typeReadFailed_Reply)
        show "stop \<longrightarrow> m \<le> k' \<and> 0 < k'"
          using skipped(7) by simp
      qed
    next
      case (found body v modelConfig nresp deviceName)
      show ?thesis
      proof (rule step)
        show "cl_log c' = cl_log c @ [(ReadHoldingRegisters unitId REG_DEVICE_TYPE 1, Reply body),
                              (ReadHoldingRegisters unitId REG_DEVICE_NAME 10, nresp)]"
          by (rule found(2))
        show "length (typeReads [(ReadHoldingRegisters unitId REG_DEVICE_TYPE 1, Reply body),
                              (ReadHoldingRegisters unitId REG_DEVICE_NAME 10, nresp)]) = 1"
          by (simp add: typeReads_def isTypeRead_simps)
        have "trailingFailures ((pre @ [(ReadHoldingRegisters unitId REG_DEVICE_TYPE 1, Reply body)]) @
                              [(ReadHoldingRegisters unitId REG_DEVICE_NAME 10, nresp)]) = 0"
          using found(3)
          by (simp only: trailingFailures_snoc isTypeRead_simps typeReadFailed_Reply if_True if_False)
        then show "k' = trailingFailures (pre @ [(ReadHoldingRegisters unitId REG_DEVICE_TYPE 1, Reply body),
                              (ReadHoldingRegisters unitId REG_DEVICE_NAME 10, nresp)])"
          using found(7) by simp
        show "stop \<longrightarrow> m \<le> k' \<and> 0 < k'"
          using found(9) by simp
      qed
    qed
  qed
qed

text \<open>
  C9: in one round of the scan loop, when \<open>readDeviceType\<close> returns a value, whatever
  it is, the counter of consecutive timeouts is 0 after the round and the loop is not
  left. A scan that ends before it has read the device type of every unit of its range
  ends with at least \<open>maxConsecutiveTimeouts\<close> (and at least one) failed device-type
  reads in a row, with no answered device-type read between them.
\<close>

theorem consecutive_timeouts:
  fixes reg :: "('cap, 'opt) registry"
  shows
  "(fst (readDeviceType gw (setUnitId unitId c)) = Inr typeId \<longrightarrow>
      fst (snd (scanUnit reg gw settings m unitId k devices c)) = 0 \<and>
      \<not> fst (scanUnit reg gw settings m unitId k devices c)) \<and>
   (length (typeReads (transactions c (snd (scanUnitRange reg gw settings startId endId m c))))
      < endId - startId \<longrightarrow>
      m \<le> trailingFailures (transactions c (snd (scanUnitRange reg gw settings startId endId m c))) \<and>
      0 < trailingFailures (transactions c (snd (scanUnitRange reg gw settings startId endId m c))))"
proof (intro conjI impI)
  assume r: "fst (readDeviceType gw (setUnitId unitId c)) = Inr typeId"
  obtain c2 where c2: "readDeviceType gw (setUnitId unitId c) = (Inr typeId, c2)"
    using r by (cases "readDeviceType gw (setUnitId unitId c)") simp
  show "fst (snd (scanUnit reg gw settings m unitId k devices c)) = 0"
    using c2 by (simp add: scanUnit_def scanUnit_try_def Let_def split_beta split: option.splits)
  show "\<not> fst (scanUnit reg gw settings m unitId k devices c)"
    using c2 by (simp add: scanUnit_def scanUnit_try_def Let_def split_beta split: option.splits)
next
  let ?c' = "snd (scanUnitRange reg gw settings startId endId m c)"
  assume early: "length (typeReads (transactions c ?c')) < endId - startId"
  have "0 = trailingFailures []" by (simp add: trailingFailures_def typeReads_def)
  with scan_loop_failures [of 0 reg gw settings endId m startId "[]" c] obtain ts where
    ts: "cl_log ?c' = cl_log c @ ts"
      "length (typeReads ts) = endId - startId \<or>
       (m \<le> trailingFailures ([] @ ts) \<and> 0 < trailingFailures ([] @ ts))"
    unfolding scanUnitRange_def by blast
  from ts(1) have t: "transactions c ?c' = ts" by (rule transactions_append)
  with early ts(2) show "m \<le> trailingFailures (transactions c ?c')"
    and "0 < trailingFailures (transactions c ?c')" by auto
qed

lemma gw_silent_fails:
  "\<forall>h u. failed (gw_zeros_except [REG_DEVICE_TYPE] h (ReadHoldingRegisters u REG_DEVICE_TYPE 1))"
  by (simp add: gw_zeros_except_read failed_def)

lemmas scan_eval =
  scanUnitRange_def scan_loop.simps scanUnit_def scanUnit_try_def readDeviceType_eq
  readDeviceName_eq setUnitId_def Let_def split_beta gw_zeros_except_read settle_def
  readUInt16BE_def client0_def transactions_def issued_def

theorem consecutive_timeouts_witness:
  "fst (readDeviceType (gw_zeros_except []) (setUnitId 100 client0)) = Inr 0 \<and>
   fst (snd (scanUnit reg_sample (gw_zeros_except []) settings_sample 3 100 2 [] client0)) = 0 \<and>
   \<not> fst (scanUnit reg_sample (gw_zeros_except []) settings_sample 3 100 2 [] client0) \<and>
   length (typeReads (transactions client0 (snd (scanUnitRange reg_sample
      (gw_zeros_except [REG_DEVICE_TYPE]) settings_sample 100 150 3 client0)))) < 150 - 100 \<and>
   3 \<le> trailingFailures (transactions client0 (snd (scanUnitRange reg_sample
      (gw_zeros_except [REG_DEVICE_TYPE]) settings_sample 100 150 3 client0)))"
proof -
  have 1: "fst (readDeviceType (gw_zeros_except []) (setUnitId 100 client0)) = Inr 0"
    by (simp add: scan_eval)
  have 2: "length (typeReads (transactions client0 (snd (scanUnitRange reg_sample
      (gw_zeros_except [REG_DEVICE_TYPE]) settings_sample 100 150 3 client0)))) < 150 - 100"
    by (simp add: scan_eval typeReads_def isTypeRead_def)
  note a = consecutive_timeouts [where gw = "gw_zeros_except []" and unitId = 100 and
      c = client0 and typeId = 0 and reg = reg_sample and settings = settings_sample and
      m = 3 and k = 2 and devices = "[]", THEN conjunct1, THEN mp, OF 1]
  note b = consecutive_timeouts [where gw = "gw_zeros_except [REG_DEVICE_TYPE]" and
      c = client0 and reg = reg_sample and settings = settings_sample and m = 3 and
      startId = 100 and endId = 150, THEN conjunct2, THEN mp, OF 2, THEN conjunct1]
  from 1 a [THEN conjunct1] a [THEN conjunct2] 2 b show ?thesis by (intro conjI)
qed

text \<open>
  C3 (amended): on a gateway where every device-type read fails, a scan with a threshold
  \<open>m > 0\<close> reads the device type of the first \<open>min m (endId - startId)\<close> units of
  its range and nothing else, and finds no device: with threshold 3 it issues exactly 3
  requests when the range holds at least 3 unit ids, and one per unit id otherwise.
\<close>

theorem scanUnitRange_all_fail:
  fixes reg :: "('cap, 'opt) registry"
  assumes "\<forall>h u. failed (gw h (ReadHoldingRegisters u REG_DEVICE_TYPE 1))"
    and "0 < m"
  shows "issued c (snd (scanUnitRange reg gw settings startId endId m c)) =
           map (\<lambda>u. ReadHoldingRegisters u REG_DEVICE_TYPE 1)
             [startId ..< startId + min m (endId - startId)] \<and>
         length (issued c (snd (scanUnitRange reg gw settings startId endId m c))) =
           min m (endId - startId) \<and>
         fst (scanUnitRange reg gw settings startId endId m c) = []"
proof -
  from scan_loop_all_fail [OF assms(1), of 0 m reg settings endId startId "[]" c] assms(2)
  obtain ts where
    ts: "cl_log (snd (scanUnitRange reg gw settings startId endId m c)) = cl_log c @ ts"
      "map fst ts = map (\<lambda>u. ReadHoldingRegisters u REG_DEVICE_TYPE 1)
             [startId ..< startId + min m (endId - startId)]"
      "fst (scanUnitRange reg gw settings startId endId m c) = []"
    unfolding scanUnitRange_def by auto
  from ts(1) have "transactions c (snd (scanUnitRange reg gw settings startId endId m c)) = ts"
    by (rule transactions_append)
  then have i: "issued c (snd (scanUnitRange reg gw settings startId endId m c)) =
      map (\<lambda>u. ReadHoldingRegisters u REG_DEVICE_TYPE 1)
             [startId ..< startId + min m (endId - startId)]"
    using ts(2) by (simp add: issued_def)
  then have "length (issued c (snd (scanUnitRange reg gw settings startId endId m c))) =
           min m (endId - startId)" by simp
  with i ts(3) show ?thesis by (intro conjI)
qed

theorem scanUnitRange_all_fail_witness:
  "(\<forall>h u. failed (gw_zeros_except [REG_DEVICE_TYPE] h (ReadHoldingRegisters u REG_DEVICE_TYPE 1))) \<and>
   (0::nat) < 3 \<and>
   length (issued client0 (snd (scanUnitRange reg_sample (gw_zeros_except [REG_DEVICE_TYPE])
      settings_sample 100 150 3 client0))) = 3 \<and>
   length (issued client0 (snd (scanUnitRange reg_sample (gw_zeros_except [REG_DEVICE_TYPE])
      settings_sample 150 170 3 client0))) = 3"
proof -
  have p: "(0::nat) < 3" by simp
  note a = scanUnitRange_all_fail [OF gw_silent_fails p, of client0 reg_sample settings_sample,
      THEN conjunct2, THEN conjunct1]
  from gw_silent_fails p a [of 100 150] a [of 150 170] show ?thesis by simp
qed

text \<open>
  C3 as stated fails on a range of two unit ids: the scan issues two requests, not three.
\<close>

theorem scanUnitRange_short_range_counterexample:
  "(\<forall>h u. failed (gw_zeros_except [REG_DEVICE_TYPE] h (ReadHoldingRegisters u REG_DEVICE_TYPE 1))) \<and>
   issued client0 (snd (scanUnitRange reg_sample (gw_zeros_except [REG_DEVICE_TYPE])
      settings_sample 100 102 3 client0)) =
     [ReadHoldingRegisters 100 REG_DEVICE_TYPE 1, ReadHoldingRegisters 101 REG_DEVICE_TYPE 1] \<and>
   length (issued client0 (snd (scanUnitRange reg_sample (gw_zeros_except [REG_DEVICE_TYPE])
      settings_sample 100 102 3 client0))) \<noteq> 3"
proof -
  have "issued client0 (snd (scanUnitRange reg_sample (gw_zeros_except [REG_DEVICE_TYPE])
      settings_sample 100 102 3 client0)) =
     [ReadHoldingRegisters 100 REG_DEVICE_TYPE 1, ReadHoldingRegisters 101 REG_DEVICE_TYPE 1]"
    by (simp add: scan_eval)
  with gw_silent_fails show ?thesis by simp
qed

lemma scanned_empty: "scanned lo hi [] ([] :: ('cap, 'opt) DeviceEntry list)"
  by (simp add: scanned_def typeReads_def)

lemma scanned_mono:
  "scanned lo hi ts new \<Longrightarrow> hi \<le> hi' \<Longrightarrow> scanned lo hi' ts new"
  unfolding scanned_def by (meson less_le_trans)

lemma scanned_append:
  assumes 1: "scanned a b ts1 new1" and 2: "scanned b c ts2 new2"
    and ab: "a \<le> b" and bc: "b \<le> c"
  shows "scanned a c (ts1 @ ts2) (new1 @ new2)"
proof -
  have d: "\<forall>d\<in>set (new1 @ new2). a \<le> store_unitId d \<and> store_unitId d < c"
    using 1 2 ab bc unfolding scanned_def by fastforce
  have sd: "sorted_wrt (<) (map store_unitId (new1 @ new2))"
    using 1 2 unfolding scanned_def by (fastforce simp: sorted_wrt_append)
  have t: "\<forall>t\<in>set (ts1 @ ts2). a \<le> req_unit (fst t) \<and> req_unit (fst t) < c"
    using 1 2 ab bc unfolding scanned_def by fastforce
  have st: "sorted_wrt (<) (map (req_unit \<circ> fst) (typeReads (ts1 @ ts2)))"
    using 1 2 unfolding scanned_def typeReads_def by (fastforce simp: sorted_wrt_append)
  have e: "\<forall>d\<in>set (new1 @ new2). \<exists>body.
          (ReadHoldingRegisters (store_unitId d) REG_DEVICE_TYPE 1, Reply body) \<in> set (ts1 @ ts2) \<and>
          readUInt16BE body 0 = Inr (store_typeId d) \<and>
          store_typeId d \<noteq> 0 \<and> store_typeId d \<noteq> 65535"
    using 1 2 unfolding scanned_def by fastforce
  from d sd t st e show ?thesis unfolding scanned_def by (intro conjI)
qed

lemma store_buildDeviceEntry:
  "store_unitId (buildDeviceEntry reg settings u v mc name) = u"
  "store_typeId (buildDeviceEntry reg settings u v mc name) = v"
  by (simp_all add: buildDeviceEntry_def)

lemma scanned_round:
  fixes reg :: "('cap, 'opt) registry"
  assumes "scanUnit reg gw settings m u k devices c = (stop, k', devices', c')"
  shows "\<exists>ts new. cl_log c' = cl_log c @ ts \<and> devices' = devices @ new \<and>
           scanned u (u + 1) ts new"
  using assms
proof (cases rule: scanUnit_cases)
  case (failed resp)
  have "scanned u (u + 1) [(ReadHoldingRegisters u REG_DEVICE_TYPE 1, resp)]
          ([] :: ('cap, 'opt) DeviceEntry list)"
    by (simp add: scanned_def typeReads_def req_unit_def)
  with failed(2,5) show ?thesis by auto
next
  case (skipped body v)
  have "scanned u (u + 1) [(ReadHoldingRegisters u REG_DEVICE_TYPE 1, Reply body)]
          ([] :: ('cap, 'opt) DeviceEntry list)"
    by (simp add: scanned_def typeReads_def req_unit_def)
  with skipped(2,6) show ?thesis by auto
next
  case (found body v modelConfig nresp deviceName)
  have "scanned u (u + 1) [(ReadHoldingRegisters u REG_DEVICE_TYPE 1, Reply body),
                            (ReadHoldingRegisters u REG_DEVICE_NAME 10, nresp)]
          [buildDeviceEntry reg settings u v modelConfig deviceName]"
    using found(3,4,5)
    by (simp add: scanned_def typeReads_def req_unit_def store_buildDeviceEntry isTypeRead_simps)
  with found(2,8) show ?thesis by blast
qed

lemma scan_loop_scanned:
  fixes reg :: "('cap, 'opt) registry"
  shows "\<exists>ts new. cl_log (snd (scan_loop reg gw settings endId m unitId k devices c)) = cl_log c @ ts \<and>
           fst (scan_loop reg gw settings endId m unitId k devices c) = devices @ new \<and>
           scanned unitId (max unitId endId) ts new"
proof (induction unitId k devices c rule: scan_loop_induct [where reg = reg and gw = gw and
      settings = settings and m = m and endId = endId])
  case (finished unitId k devices c)
  have "scanned unitId (max unitId endId) [] ([] :: ('cap, 'opt) DeviceEntry list)"
    by (rule scanned_empty)
  then show ?case by simp
next
  case (round unitId k devices c stop k' devices' c')
  from scanned_round [OF round(2)] obtain ts1 new1 where
    1: "cl_log c' = cl_log c @ ts1" "devices' = devices @ new1"
       "scanned unitId (unitId + 1) ts1 new1"
    by blast
  from round(1) have mx: "max unitId endId = endId" "max (unitId + 1) endId = endId" by simp_all
  show ?case
  proof (cases stop)
    case True
    from 1(3) round(1) have "scanned unitId (max unitId endId) ts1 new1"
      by (simp add: scanned_mono mx)
    with True 1 show ?thesis by auto
  next
    case False
    from round(3) [OF False] obtain ts2 new2 where
      2: "cl_log (snd (scan_loop reg gw settings endId m (unitId + 1) k' devices' c')) =
            cl_log c' @ ts2"
         "fst (scan_loop reg gw settings endId m (unitId + 1) k' devices' c') = devices' @ new2"
         "scanned (unitId + 1) (max (unitId + 1) endId) ts2 new2"
      by blast
    from 2(3) have b: "scanned (unitId + 1) endId ts2 new2" by (simp only: mx)
    have le: "unitId \<le> unitId + 1" "unitId + 1 \<le> endId" using round(1) by simp_all
    have "scanned unitId endId (ts1 @ ts2) (new1 @ new2)"
      by (rule scanned_append [OF 1(3) b le])
    then have "scanned unitId (max unitId endId) (ts1 @ ts2) (new1 @ new2)"
      by (simp only: mx)
    moreover have "cl_log (snd (scan_loop reg gw settings endId m (unitId + 1) k' devices' c')) =
            cl_log c @ ts1 @ ts2" using 1(1) 2(1) by simp
    moreover have "fst (scan_loop reg gw settings endId m (unitId + 1) k' devices' c') =
            devices @ new1 @ new2" using 1(2) 2(2) by simp
    ultimately show ?thesis using False by auto
  qed
qed

lemma scanned_distinct:
  "scanned lo hi ts new \<Longrightarrow>
     distinct (map store_unitId new) \<and> store_unitId ` set new \<subseteq> {lo..<hi}"
  unfolding scanned_def by (auto simp: strict_sorted_iff)

lemma scanned_typeReads_distinct:
  "scanned lo hi ts new \<Longrightarrow>
     distinct (map (req_unit \<circ> fst) (typeReads ts)) \<and>
     (req_unit \<circ> fst) ` set (typeReads ts) \<subseteq> {lo..<hi}"
  unfolding scanned_def typeReads_def by (auto simp: strict_sorted_iff)

lemma scanned_no_device:
  assumes s: "scanned lo hi ts new"
    and t: "(ReadHoldingRegisters u REG_DEVICE_TYPE 1, Reply body) \<in> set ts"
    and v: "readUInt16BE body 0 = Inr v" "v = 0 \<or> v = 65535"
  shows "u \<notin> store_unitId ` set new"
proof
  assume "u \<in> store_unitId ` set new"
  then obtain d where d: "d \<in> set new" "store_unitId d = u" by auto
  with s obtain body' where
    b: "(ReadHoldingRegisters u REG_DEVICE_TYPE 1, Reply body') \<in> set ts"
       "readUInt16BE body' 0 = Inr (store_typeId d)"
       "store_typeId d \<noteq> 0" "store_typeId d \<noteq> 65535"
    unfolding scanned_def by blast
  let ?t = "(ReadHoldingRegisters u REG_DEVICE_TYPE 1, Reply body)"
  let ?t' = "(ReadHoldingRegisters u REG_DEVICE_TYPE 1, Reply body')"
  from t b(1) have m: "?t \<in> set (typeReads ts)" "?t' \<in> set (typeReads ts)"
    by (simp_all add: typeReads_def isTypeRead_simps)
  from s have "distinct (map (req_unit \<circ> fst) (typeReads ts))"
    by (simp add: scanned_typeReads_distinct)
  then have "inj_on (req_unit \<circ> fst) (set (typeReads ts))"
    by (simp add: distinct_map)
  moreover have "(req_unit \<circ> fst) ?t = (req_unit \<circ> fst) ?t'" by simp
  ultimately have "?t = ?t'" using m by (rule inj_onD)
  then have "body = body'" by simp
  with v b(2,3,4) show False by auto
qed

section \<open>The Panel Server address table\<close>

lemma update_fresh:
  "k \<notin> fst ` set al \<Longrightarrow> AList.update k v al = al @ [(k, v)]"
  by (induction al) auto

lemma addresses_loop_values:
  "addresses_loop chunks slot acc = Inr res \<Longrightarrow>
   \<forall>p\<in>set acc. snd p \<noteq> 0 \<and> snd p \<noteq> 65535 \<Longrightarrow>
   \<forall>p\<in>set res. snd p \<noteq> 0 \<and> snd p \<noteq> 65535"
proof (induction chunks slot acc rule: addresses_loop.induct)
  case (1 chunks slot addresses)
  show ?case
  proof (cases "slot \<le> 99")
    case False
    with 1(2,3) show ?thesis by (simp add: addresses_loop.simps)
  next
    case True
    let ?buf = "chunks ! ((slot - 1) * 5 div 125)"
    let ?i = "(slot - 1) * 5 mod 125 * 2"
    from 1(2) True obtain unitId where
      u: "readUInt16BE ?buf ?i = Inr unitId"
      and r: "addresses_loop chunks (slot + 1)
                (if unitId \<noteq> 0 \<and> unitId \<noteq> 65535
                 then AList.update slot unitId addresses else addresses) = Inr res"
      by (subst (asm) addresses_loop.simps)
        (auto simp: Let_def andThen_def split: sum.splits)
    have "\<forall>p\<in>set (if unitId \<noteq> 0 \<and> unitId \<noteq> 65535
                 then AList.update slot unitId addresses else addresses).
            snd p \<noteq> 0 \<and> snd p \<noteq> 65535"
    proof -
      have "set (AList.update slot unitId addresses) \<subseteq> insert (slot, unitId) (set addresses)"
        by (induction addresses) auto
      with 1(3) show ?thesis by auto
    qed
    with "1.IH" [OF True refl refl refl refl r] show ?thesis .
  qed
qed

lemma chunk_nth:
  assumes "j < 125" "j * 2 + 2 \<le> length b"
  shows "readUInt16BE b (j * 2) = Inr (unat (b ! (2 * j)) * 256 + unat (b ! (2 * j + 1)))"
  using assms by (simp add: readUInt16BE_def mult.commute)

lemma chunk_read:
  assumes len: "length b1 = 250" "length b2 = 250" "length b3 = 250" "length b4 = 240"
    and s: "1 \<le> s" "s \<le> 99"
  shows "readUInt16BE ([b1, b2, b3, b4] ! ((s - 1) * 5 div 125)) ((s - 1) * 5 mod 125 * 2) =
           Inr (slot_value (b1 @ b2 @ b3 @ b4) s)"
proof -
  define k where "k = (s - 1) * 5"
  have k: "k \<le> 490" using s by (simp add: k_def)
  let ?T = "b1 @ b2 @ b3 @ b4"
  consider "k < 125" | "125 \<le> k" "k < 250" | "250 \<le> k" "k < 375" | "375 \<le> k"
    by linarith
  then have "readUInt16BE ([b1, b2, b3, b4] ! (k div 125)) (k mod 125 * 2) =
      Inr (unat (?T ! (2 * k)) * 256 + unat (?T ! (2 * k + 1)))"
  proof cases
    case 1
    then have d: "k div 125 = 0" "k mod 125 = k" by simp_all
    have n: "?T ! (2 * k) = b1 ! (2 * k)" "?T ! (2 * k + 1) = b1 ! (2 * k + 1)"
      using 1 len by (simp_all add: nth_append)
    have "readUInt16BE b1 (k * 2) = Inr (unat (b1 ! (2 * k)) * 256 + unat (b1 ! (2 * k + 1)))"
      using 1 len by (intro chunk_nth) simp_all
    then show ?thesis unfolding d n by simp
  next
    case 2
    define j where "j = k - 125"
    from 2 have j: "k = j + 125" "j < 125" by (simp_all add: j_def)
    have d1: "k div 125 = 1" by (rule div_nat_eqI) (use j in simp_all)
    have d2: "k mod 125 = j" unfolding modulo_nat_def d1 using j by simp
    note d = d1 d2
    have n: "?T ! (2 * k) = b2 ! (2 * j)" "?T ! (2 * k + 1) = b2 ! (2 * j + 1)"
      using j len by (simp_all add: nth_append)
    have "readUInt16BE b2 (j * 2) = Inr (unat (b2 ! (2 * j)) * 256 + unat (b2 ! (2 * j + 1)))"
      using j len by (intro chunk_nth) simp_all
    then show ?thesis unfolding d n by simp
  next
    case 3
    define j where "j = k - 250"
    from 3 have j: "k = j + 250" "j < 125" by (simp_all add: j_def)
    have d1: "k div 125 = 2" by (rule div_nat_eqI) (use j in simp_all)
    have d2: "k mod 125 = j" unfolding modulo_nat_def d1 using j by simp
    note d = d1 d2
    have n: "?T ! (2 * k) = b3 ! (2 * j)" "?T ! (2 * k + 1) = b3 ! (2 * j + 1)"
      using j len by (simp_all add: nth_append)
    have "readUInt16BE b3 (j * 2) = Inr (unat (b3 ! (2 * j)) * 256 + unat (b3 ! (2 * j + 1)))"
      using j len by (intro chunk_nth) simp_all
    then show ?thesis unfolding d n by simp
  next
    case 4
    define j where "j = k - 375"
    from 4 k have j: "k = j + 375" "j \<le> 115" by (simp_all add: j_def)
    have d1: "k div 125 = 3" by (rule div_nat_eqI) (use j in simp_all)
    have d2: "k mod 125 = j" unfolding modulo_nat_def d1 using j by simp
    note d = d1 d2
    have n: "?T ! (2 * k) = b4 ! (2 * j)" "?T ! (2 * k + 1) = b4 ! (2 * j + 1)"
      using j len by (simp_all add: nth_append)
    have "readUInt16BE b4 (j * 2) = Inr (unat (b4 ! (2 * j)) * 256 + unat (b4 ! (2 * j + 1)))"
      using j len by (intro chunk_nth) simp_all
    then show ?thesis unfolding d n by simp
  qed
  then show ?thesis by (simp add: k_def slot_value_def)
qed

lemma addresses_loop_table:
  assumes len: "length b1 = 250" "length b2 = 250" "length b3 = 250" "length b4 = 240"
  shows "1 \<le> slot \<Longrightarrow> \<forall>k\<in>fst ` set acc. k < slot \<Longrightarrow>
     addresses_loop [b1, b2, b3, b4] slot acc =
       Inr (acc @ map (\<lambda>s. (s, slot_value (b1 @ b2 @ b3 @ b4) s))
                    (filter (\<lambda>s. slot_value (b1 @ b2 @ b3 @ b4) s \<noteq> 0 \<and>
                                 slot_value (b1 @ b2 @ b3 @ b4) s \<noteq> 65535) [slot..<100]))"
proof (induction "100 - slot" arbitrary: slot acc)
  case 0
  then show ?case by (simp add: addresses_loop.simps)
next
  case (Suc n)
  let ?T = "b1 @ b2 @ b3 @ b4"
  let ?v = "slot_value ?T slot"
  let ?acc = "if ?v \<noteq> 0 \<and> ?v \<noteq> 65535 then AList.update slot ?v acc else acc"
  from Suc(2) have le: "slot \<le> 99" by simp
  have rd: "readUInt16BE ([b1, b2, b3, b4] ! ((slot - 1) * 5 div 125))
              ((slot - 1) * 5 mod 125 * 2) = Inr ?v"
    using len Suc(3) le by (rule chunk_read)
  have step: "addresses_loop [b1, b2, b3, b4] slot acc =
      addresses_loop [b1, b2, b3, b4] (slot + 1) ?acc"
    using le rd by (subst addresses_loop.simps) (simp add: Let_def)
  from Suc(4) have fresh: "slot \<notin> fst ` set acc" by auto
  have acc: "?acc = acc @ (if ?v \<noteq> 0 \<and> ?v \<noteq> 65535 then [(slot, ?v)] else [])"
    using fresh by (simp add: update_fresh)
  have keys: "\<forall>k\<in>fst ` set ?acc. k < slot + 1"
    using Suc(4) unfolding acc by fastforce
  from Suc(2) have n: "n = 100 - (slot + 1)" by simp
  have up: "[slot..<100] = slot # [slot + 1..<100]"
    using le by (simp add: upt_conv_Cons)
  have "addresses_loop [b1, b2, b3, b4] (slot + 1) ?acc =
      Inr (?acc @ map (\<lambda>s. (s, slot_value ?T s))
                    (filter (\<lambda>s. slot_value ?T s \<noteq> 0 \<and> slot_value ?T s \<noteq> 65535)
                       [slot + 1..<100]))"
    by (rule Suc(1) [OF n _ keys]) simp
  then show ?case
    unfolding step acc up by simp
qed

lemma Promise_all_Replies:
  "Promise_all (map settle (map Reply bufs)) = Inr bufs"
  by (induction bufs) (simp_all add: settle_def)

lemma readPanelServerDeviceAddresses_reads:
  "readPanelServerDeviceAddresses gw c =
     (andThen (Promise_all (fst (issueReads gw [(504, 125), (629, 125), (754, 125), (879, 120)] c)))
        (\<lambda>chunks. addresses_loop chunks 1 []),
      snd (issueReads gw [(504, 125), (629, 125), (754, 125), (879, 120)] c))"
  unfolding readPanelServerDeviceAddresses_def Let_def split_beta REG_defs
  by (simp del: issueReads.simps)

lemma readPanelServerDeviceAddresses_issued:
  "issued c (snd (readPanelServerDeviceAddresses gw c)) =
     [ReadHoldingRegisters (cl_unitId c) 504 125, ReadHoldingRegisters (cl_unitId c) 629 125,
      ReadHoldingRegisters (cl_unitId c) 754 125, ReadHoldingRegisters (cl_unitId c) 879 120]"
  using poll_all_or_nothing_aux(1) [OF readPanelServerDeviceAddresses_reads] by simp

lemma readPanelServerDeviceAddresses_table:
  assumes r: "replies c (snd (readPanelServerDeviceAddresses gw c)) =
                [Reply b1, Reply b2, Reply b3, Reply b4]"
    and len: "length b1 = 250" "length b2 = 250" "length b3 = 250" "length b4 = 240"
  shows "fst (readPanelServerDeviceAddresses gw c) = Inr (occupied_slots (b1 @ b2 @ b3 @ b4))"
proof -
  let ?rs = "[(504, 125), (629, 125), (754, 125), (879, 120)] :: (nat \<times> nat) list"
  from r have "replies c (snd (issueReads gw ?rs c)) = map Reply [b1, b2, b3, b4]"
    by (simp only: readPanelServerDeviceAddresses_reads snd_conv list.map)
  then have "fst (issueReads gw ?rs c) = map settle (map Reply [b1, b2, b3, b4])"
    by (simp only: issueReads_fst)
  then have "Promise_all (fst (issueReads gw ?rs c)) = Inr [b1, b2, b3, b4]"
    by (simp only: Promise_all_Replies)
  then have "fst (readPanelServerDeviceAddresses gw c) = addresses_loop [b1, b2, b3, b4] 1 []"
    by (simp only: readPanelServerDeviceAddresses_reads fst_conv andThen_Inr)
  also have "\<dots> = Inr (occupied_slots (b1 @ b2 @ b3 @ b4))"
    using addresses_loop_table [OF len, of 1 "[]"] by (simp add: occupied_slots_def)
  finally show ?thesis .
qed

lemma map_of_occupied_slots:
  "map_of (occupied_slots table) s =
     (if 1 \<le> s \<and> s \<le> 99 \<and> slot_value table s \<noteq> 0 \<and> slot_value table s \<noteq> 65535
      then Some (slot_value table s) else None)"
proof -
  have "map_of (map (\<lambda>s. (s, f s)) xs) s = (if s \<in> set xs then Some (f s) else None)"
    for f :: "nat \<Rightarrow> nat" and xs
    by (induction xs) auto
  then show ?thesis
    unfolding occupied_slots_def by auto
qed

section \<open>The Panel Server strategy\<close>

lemma typeReads_other:
  "\<forall>t\<in>set ts. \<not> isTypeRead t \<Longrightarrow> typeReads ts = []"
  by (simp add: typeReads_def)

lemma typeReads_append: "typeReads (ts @ ts') = typeReads ts @ typeReads ts'"
  by (simp add: typeReads_def)

lemma isTypeRead_ref:
  "\<not> isTypeRead (ReadHoldingRegisters u REG_COMMERCIAL_REF n, resp)"
  by (simp add: isTypeRead_def REG_defs)

lemma panelServerSlot_blocked:
  fixes reg :: "('cap, 'opt) registry"
  assumes "255 < unitId"
  shows "panelServerSlot reg gw settings unitId devices c = (devices, setUnitId unitId c, True)"
  using assms by (simp add: panelServerSlot_def panelServerSlot_try_def Let_def)

lemma panelServerSlot_result:
  fixes reg :: "('cap, 'opt) registry"
  shows "\<exists>ts new. cl_log (fst (snd (panelServerSlot reg gw settings unitId devices c))) = cl_log c @ ts \<and>
           fst (panelServerSlot reg gw settings unitId devices c) = devices @ new \<and>
           typeReads ts = [] \<and>
           (new = [] \<or> (\<exists>v mc name. new = [buildDeviceEntry reg settings unitId v mc name])) \<and>
           (snd (snd (panelServerSlot reg gw settings unitId devices c)) \<longleftrightarrow> 255 < unitId)"
proof (cases "255 < unitId")
  case True
  have "typeReads [] = []" by (simp add: typeReads_def)
  with True show ?thesis
    by (simp add: panelServerSlot_blocked [OF True] setUnitId_def)
next
  case small: False
  let ?req = "ReadHoldingRegisters unitId REG_COMMERCIAL_REF 16"
  let ?resp = "gw (cl_log c) ?req"
  let ?c2 = "c\<lparr>cl_unitId := unitId, cl_log := cl_log c @ [(?req, ?resp)]\<rparr>"
  let ?r = "andThen (settle ?resp) (\<lambda>buf. Inr (parseAsciiBuffer buf))"
  have rd: "readCommercialReference gw (setUnitId unitId c) = (?r, ?c2)"
    by (simp add: readCommercialReference_eq setUnitId_def)
  have t1: "typeReads [(?req, ?resp)] = []"
    by (simp add: typeReads_def isTypeRead_ref)
  show ?thesis
  proof (cases "\<exists>reference modelConfig. ?r = Inr reference \<and> reference \<noteq> [] \<and>
                  getModelByReference reg reference = Some modelConfig")
    case False
    then have "panelServerSlot reg gw settings unitId devices c = (devices, ?c2, False)"
      using rd small by (auto simp: panelServerSlot_def panelServerSlot_try_def Let_def
          split: sum.splits option.splits)
    with t1 small show ?thesis by simp
  next
    case True
    then obtain reference modelConfig where
      r: "?r = Inr reference" "reference \<noteq> []" "getModelByReference reg reference = Some modelConfig"
      by blast
    let ?nreq = "ReadHoldingRegisters unitId REG_DEVICE_NAME 10"
    let ?nresp = "gw (cl_log ?c2) ?nreq"
    let ?name = "case andThen (settle ?nresp) (\<lambda>buf. Inr (parseAsciiBuffer buf)) of
                   Inl e \<Rightarrow> [] | Inr s \<Rightarrow> s"
    have "panelServerSlot reg gw settings unitId devices c =
        (devices @ [buildDeviceEntry reg settings unitId (mc_typeId modelConfig) modelConfig ?name],
         ?c2\<lparr>cl_log := cl_log ?c2 @ [(?nreq, ?nresp)]\<rparr>, False)"
      using rd r small by (simp add: panelServerSlot_def panelServerSlot_try_def Let_def
          readDeviceName_eq)
    moreover have "typeReads [(?req, ?resp), (?nreq, ?nresp)] = []"
      by (simp add: typeReads_def isTypeRead_ref isTypeRead_simps)
    ultimately show ?thesis using small by auto
  qed
qed

lemma panelServer_loop_result:
  fixes reg :: "('cap, 'opt) registry"
  shows "\<exists>ts. cl_log (fst (snd (panelServer_loop reg gw settings addressMap devices c blocked))) =
                cl_log c @ ts \<and>
           typeReads ts = [] \<and>
           (\<forall>found. fst (panelServer_loop reg gw settings addressMap devices c blocked) = Some found \<longrightarrow>
              (\<exists>new. found = devices @ new \<and>
                 subseq (map store_unitId new) (map snd addressMap)))"
proof (induction addressMap arbitrary: devices c blocked)
  case Nil
  show ?case by (simp add: typeReads_def)
next
  case (Cons p addressMap)
  obtain slot unitId where p: "p = (slot, unitId)" by (cases p)
  show ?case
  proof (cases blocked)
    case True
    have "typeReads [] = []" by (simp add: typeReads_def)
    with True show ?thesis by (simp add: p setUnitId_def)
  next
    case False
    obtain devices' c' blocked' where
      s: "panelServerSlot reg gw settings unitId devices c = (devices', c', blocked')"
      by (cases "panelServerSlot reg gw settings unitId devices c")
    have "\<exists>ts new. cl_log c' = cl_log c @ ts \<and> devices' = devices @ new \<and> typeReads ts = [] \<and>
             (new = [] \<or> (\<exists>v mc name. new = [buildDeviceEntry reg settings unitId v mc name]))"
      using panelServerSlot_result [of reg gw settings unitId devices c]
      by (simp only: s fst_conv snd_conv) blast
    then obtain ts1 new1 where
      1: "cl_log c' = cl_log c @ ts1" "devices' = devices @ new1" "typeReads ts1 = []"
         "new1 = [] \<or> (\<exists>v mc name. new1 = [buildDeviceEntry reg settings unitId v mc name])"
      by blast
    let ?L = "panelServer_loop reg gw settings addressMap devices' c' blocked'"
    from Cons.IH [of devices' c' blocked'] obtain ts2 where
      2: "cl_log (fst (snd ?L)) = cl_log c' @ ts2" "typeReads ts2 = []"
         "\<forall>found. fst ?L = Some found \<longrightarrow>
            (\<exists>new. found = devices' @ new \<and> subseq (map store_unitId new) (map snd addressMap))"
      by blast
    have e: "panelServer_loop reg gw settings (p # addressMap) devices c blocked = ?L"
      using False by (simp add: p s)
    have n1: "subseq (map store_unitId new1) [unitId]"
      using 1(4) by (auto simp: store_buildDeviceEntry)
    have f: "\<exists>new. found = devices @ new \<and> subseq (map store_unitId new) (map snd (p # addressMap))"
      if "fst ?L = Some found" for found
    proof -
      from 2(3) that obtain new2 where
        n2: "found = devices' @ new2" "subseq (map store_unitId new2) (map snd addressMap)"
        by blast
      from n1 n2(2)
      have "subseq (map store_unitId new1 @ map store_unitId new2) ([unitId] @ map snd addressMap)"
        by (rule list_emb_append_mono)
      then have "subseq (map store_unitId (new1 @ new2)) (map snd (p # addressMap))"
        by (simp add: p)
      moreover have "found = devices @ (new1 @ new2)" using n2(1) 1(2) by simp
      ultimately show ?thesis by blast
    qed
    have "cl_log (fst (snd ?L)) = cl_log c @ (ts1 @ ts2)" using 1(1) 2(1) by simp
    moreover have "typeReads (ts1 @ ts2) = []" using 1(3) 2(2) by (simp add: typeReads_append)
    ultimately show ?thesis unfolding e using f by blast
  qed
qed

text \<open>
  The loop returns, on a client that is not blocked, when every unit id of the address map
  fits the unit-id byte.
\<close>

lemma panelServer_loop_returns:
  fixes reg :: "('cap, 'opt) registry"
  assumes "\<forall>p\<in>set addressMap. snd p \<le> 255"
  shows "(\<exists>found. fst (panelServer_loop reg gw settings addressMap devices c False) = Some found) \<and>
         \<not> snd (snd (panelServer_loop reg gw settings addressMap devices c False))"
  using assms
proof (induction addressMap arbitrary: devices c)
  case Nil
  show ?case by simp
next
  case (Cons p addressMap)
  obtain slot unitId where p: "p = (slot, unitId)" by (cases p)
  with Cons.prems have u: "\<not> 255 < unitId" by simp
  from Cons.prems have r: "\<forall>p\<in>set addressMap. snd p \<le> 255" by simp
  obtain devices' c' blocked' where
    s: "panelServerSlot reg gw settings unitId devices c = (devices', c', blocked')"
    by (cases "panelServerSlot reg gw settings unitId devices c")
  with panelServerSlot_result [of reg gw settings unitId devices c] u have "\<not> blocked'"
    by auto
  then show ?case using Cons.IH [OF r, of devices' c'] by (simp add: p s)
qed

lemma readPanelServerDeviceAddresses_log:
  "\<exists>ts. cl_log (snd (readPanelServerDeviceAddresses gw c)) = cl_log c @ ts \<and> typeReads ts = []"
proof -
  let ?rs = "[(504, 125), (629, 125), (754, 125), (879, 120)] :: (nat \<times> nat) list"
  from issueReads_trace [of gw ?rs c] obtain ts where
    ts: "cl_log (snd (issueReads gw ?rs c)) = cl_log c @ ts"
        "map fst ts = map (\<lambda>(start, count). ReadHoldingRegisters (cl_unitId c) start count) ?rs"
    by blast
  have "\<not> isTypeRead t" if "t \<in> set ts" for t
  proof -
    from that have "fst t \<in> set (map fst ts)" by simp
    then show ?thesis unfolding ts(2) by (auto simp: isTypeRead_def REG_defs)
  qed
  then have "typeReads ts = []" by (simp add: typeReads_other)
  with ts(1) show ?thesis by (auto simp: readPanelServerDeviceAddresses_reads)
qed

lemma discoverViaPanelServer_result:
  fixes reg :: "('cap, 'opt) registry"
  shows "\<exists>ts. cl_log (fst (snd (discoverViaPanelServer reg gw settings c))) = cl_log c @ ts \<and>
           typeReads ts = [] \<and>
           (\<forall>devices. fst (discoverViaPanelServer reg gw settings c) = Inr devices \<longrightarrow>
              (\<exists>addressMap. fst (readPanelServerDeviceAddresses gw (setUnitId 255 c)) = Inr addressMap \<and>
                 subseq (map store_unitId devices) (map snd addressMap)))"
proof -
  obtain r c2 where a: "readPanelServerDeviceAddresses gw (setUnitId 255 c) = (r, c2)"
    by (cases "readPanelServerDeviceAddresses gw (setUnitId 255 c)")
  from readPanelServerDeviceAddresses_log [of gw "setUnitId 255 c"] a obtain ts1 where
    1: "cl_log c2 = cl_log c @ ts1" "typeReads ts1 = []"
    by (auto simp: setUnitId_def)
  show ?thesis
  proof (cases r)
    case (Inl e)
    with a have "discoverViaPanelServer reg gw settings c = (Inl (Raised e), c2, False)"
      by (simp add: discoverViaPanelServer_def Let_def)
    with 1 show ?thesis by simp
  next
    case (Inr addressMap)
    let ?L = "panelServer_loop reg gw settings addressMap [] c2 False"
    from panelServer_loop_result [of reg gw settings addressMap "[]" c2 False] obtain ts2 where
      2: "cl_log (fst (snd ?L)) = cl_log c2 @ ts2" "typeReads ts2 = []"
         "\<forall>found. fst ?L = Some found \<longrightarrow> subseq (map store_unitId found) (map snd addressMap)"
      by auto
    have d: "discoverViaPanelServer reg gw settings c =
        ((case fst ?L of None \<Rightarrow> Inl NeverSettles | Some devices \<Rightarrow> Inr devices), snd ?L)"
      using a Inr by (simp add: discoverViaPanelServer_def Let_def split: prod.splits option.splits)
    have "cl_log (fst (snd (discoverViaPanelServer reg gw settings c))) = cl_log c @ ts1 @ ts2"
      using d 1(1) 2(1) by simp
    moreover have "typeReads (ts1 @ ts2) = []" using 1(2) 2(2) by (simp add: typeReads_append)
    moreover have "\<exists>addressMap. fst (readPanelServerDeviceAddresses gw (setUnitId 255 c)) = Inr addressMap \<and>
                 subseq (map store_unitId devices) (map snd addressMap)"
      if "fst (discoverViaPanelServer reg gw settings c) = Inr devices" for devices
    proof -
      from that d have "fst ?L = Some devices" by (cases "fst ?L") simp_all
      with 2(3) a Inr show ?thesis by simp
    qed
    ultimately show ?thesis by blast
  qed
qed

text \<open>
  The Panel-Server strategy settles and leaves the client free when every unit id of the
  address table, if the table could be read, fits the unit-id byte.
\<close>

lemma discoverViaPanelServer_settles:
  fixes reg :: "('cap, 'opt) registry"
  assumes "\<forall>addressMap. fst (readPanelServerDeviceAddresses gw (setUnitId 255 c)) = Inr addressMap \<longrightarrow>
             (\<forall>p\<in>set addressMap. snd p \<le> 255)"
  shows "fst (discoverViaPanelServer reg gw settings c) \<noteq> Inl NeverSettles \<and>
         \<not> snd (snd (discoverViaPanelServer reg gw settings c))"
proof -
  obtain r c2 where a: "readPanelServerDeviceAddresses gw (setUnitId 255 c) = (r, c2)"
    by (cases "readPanelServerDeviceAddresses gw (setUnitId 255 c)")
  show ?thesis
  proof (cases r)
    case (Inl e)
    with a show ?thesis by (simp add: discoverViaPanelServer_def Let_def)
  next
    case (Inr addressMap)
    with a assms have "\<forall>p\<in>set addressMap. snd p \<le> 255" by simp
    from panelServer_loop_returns [OF this, of reg gw settings "[]" c2] a Inr show ?thesis
      by (auto simp: discoverViaPanelServer_def Let_def split: prod.splits option.splits)
  qed
qed

section \<open>Discovery as a whole\<close>

lemma subseq_distinct: "subseq xs ys \<Longrightarrow> distinct ys \<Longrightarrow> distinct xs"
proof (induction rule: list_emb.induct)
  case (list_emb_Nil ys)
  show ?case by simp
next
  case (list_emb_Cons xs ys y)
  then show ?case by simp
next
  case (list_emb_Cons2 x y xs ys)
  then have "x \<notin> set xs" by (auto elim: list_emb_set)
  with list_emb_Cons2 show ?case by simp
qed

lemma discoverDevices_panel:
  fixes reg :: "('cap, 'opt) registry"
  assumes "fst (discoverViaPanelServer reg gw settings client0) = Inr devices" "devices \<noteq> []"
  shows "discoverDevices reg gw settings Connected =
           (Inr devices, fst (snd (discoverViaPanelServer reg gw settings client0)))"
  using assms by (simp add: discoverDevices_def client0_def Let_def split_beta)

lemma discoverDevices_scan:
  fixes reg :: "('cap, 'opt) registry"
  assumes "fst (discoverViaPanelServer reg gw settings client0) = Inr [] \<or>
           (\<exists>e. fst (discoverViaPanelServer reg gw settings client0) = Inl (Raised e))"
    and "\<not> snd (snd (discoverViaPanelServer reg gw settings client0))"
  shows "discoverDevices reg gw settings Connected =
     (Inr (fst (scanUnitRange reg gw settings 150 170 10
                  (fst (snd (discoverViaPanelServer reg gw settings client0)))) @
           fst (scanUnitRange reg gw settings 100 150 3
                  (snd (scanUnitRange reg gw settings 150 170 10
                     (fst (snd (discoverViaPanelServer reg gw settings client0)))))) @
           fst (scanUnitRange reg gw settings 170 200 3
                  (snd (scanUnitRange reg gw settings 100 150 3
                     (snd (scanUnitRange reg gw settings 150 170 10
                        (fst (snd (discoverViaPanelServer reg gw settings client0))))))))),
      snd (scanUnitRange reg gw settings 170 200 3
                  (snd (scanUnitRange reg gw settings 100 150 3
                     (snd (scanUnitRange reg gw settings 150 170 10
                        (fst (snd (discoverViaPanelServer reg gw settings client0)))))))))"
  using assms by (auto simp: discoverDevices_def client0_def Let_def split_beta)

text \<open>
  Discovery never returns when the Panel-Server strategy never returns, and when that
  strategy found no device and left the client blocked.
\<close>

lemma discoverDevices_hangs:
  fixes reg :: "('cap, 'opt) registry"
  assumes "fst (discoverViaPanelServer reg gw settings client0) = Inl NeverSettles \<or>
           ((fst (discoverViaPanelServer reg gw settings client0) = Inr [] \<or>
             (\<exists>e. fst (discoverViaPanelServer reg gw settings client0) = Inl (Raised e))) \<and>
            snd (snd (discoverViaPanelServer reg gw settings client0)))"
  shows "discoverDevices reg gw settings Connected =
           (Inl NeverSettles, fst (snd (discoverViaPanelServer reg gw settings client0)))"
  using assms by (auto simp: discoverDevices_def client0_def Let_def split_beta)

lemma scanUnitRange_scanned:
  fixes reg :: "('cap, 'opt) registry"
  assumes "startId \<le> endId"
  shows "\<exists>ts. cl_log (snd (scanUnitRange reg gw settings startId endId m c)) = cl_log c @ ts \<and>
           scanned startId endId ts (fst (scanUnitRange reg gw settings startId endId m c))"
proof -
  from assms have "max startId endId = endId" by simp
  with scan_loop_scanned [of reg gw settings endId m startId 0 "[]" c] show ?thesis
    by (auto simp: scanUnitRange_def)
qed

text \<open>
  What the three scans of the fallback leave behind: the unit ids of the devices are
  pairwise different, and so are the units of the device-type reads.
\<close>

lemma three_scans:
  fixes reg :: "('cap, 'opt) registry"
  shows "\<exists>ts. cl_log (snd (scanUnitRange reg gw settings 170 200 3
                  (snd (scanUnitRange reg gw settings 100 150 3
                     (snd (scanUnitRange reg gw settings 150 170 10 c)))))) = cl_log c @ ts \<and>
     distinct (map (req_unit \<circ> fst) (typeReads ts)) \<and>
     distinct (map store_unitId
       (fst (scanUnitRange reg gw settings 150 170 10 c) @
        fst (scanUnitRange reg gw settings 100 150 3
               (snd (scanUnitRange reg gw settings 150 170 10 c))) @
        fst (scanUnitRange reg gw settings 170 200 3
               (snd (scanUnitRange reg gw settings 100 150 3
                  (snd (scanUnitRange reg gw settings 150 170 10 c)))))))"
proof -
  let ?S1 = "scanUnitRange reg gw settings 150 170 10 c"
  let ?S2 = "scanUnitRange reg gw settings 100 150 3 (snd ?S1)"
  let ?S3 = "scanUnitRange reg gw settings 170 200 3 (snd ?S2)"
  from scanUnitRange_scanned [of 150 170 reg gw settings 10 c] obtain ts1 where
    1: "cl_log (snd ?S1) = cl_log c @ ts1" "scanned 150 170 ts1 (fst ?S1)" by auto
  from scanUnitRange_scanned [of 100 150 reg gw settings 3 "snd ?S1"] obtain ts2 where
    2: "cl_log (snd ?S2) = cl_log (snd ?S1) @ ts2" "scanned 100 150 ts2 (fst ?S2)" by auto
  from scanUnitRange_scanned [of 170 200 reg gw settings 3 "snd ?S2"] obtain ts3 where
    3: "cl_log (snd ?S3) = cl_log (snd ?S2) @ ts3" "scanned 170 200 ts3 (fst ?S3)" by auto
  note d1 = scanned_distinct [OF 1(2)] and d2 = scanned_distinct [OF 2(2)]
    and d3 = scanned_distinct [OF 3(2)]
  note r1 = scanned_typeReads_distinct [OF 1(2)] and r2 = scanned_typeReads_distinct [OF 2(2)]
    and r3 = scanned_typeReads_distinct [OF 3(2)]
  have l: "cl_log (snd ?S3) = cl_log c @ (ts1 @ ts2 @ ts3)"
    using 1(1) 2(1) 3(1) by simp
  have dd: "distinct (map store_unitId (fst ?S1 @ fst ?S2 @ fst ?S3))"
    using d1 d2 d3 by (fastforce simp: subset_iff)
  have "distinct (map (req_unit \<circ> fst) (typeReads ts1) @ map (req_unit \<circ> fst) (typeReads ts2) @
                  map (req_unit \<circ> fst) (typeReads ts3))"
    using r1 r2 r3 by (fastforce simp: subset_iff)
  then have "distinct (map (req_unit \<circ> fst) (typeReads (ts1 @ ts2 @ ts3)))"
    by (simp only: typeReads_append map_append)
  with l dd show ?thesis by blast
qed

section \<open>The sample Panel Server\<close>

lemma gw_panel_read:
  "gw_panel table h (ReadHoldingRegisters u start count) =
     (if u = 255 then
        (if 504 \<le> start \<and> start + count \<le> 999
         then Reply (take (2 * count) (drop (2 * (start - 504)) table))
         else ModbusException 2)
      else if start = REG_COMMERCIAL_REF
      then Reply ([65, 57, 77, 69, 77, 49, 53, 52, 49] @ replicate 23 0)
      else Timeout)"
  by (simp add: gw_panel_def)

lemma parse_A9MEM1541:
  "parseAsciiBuffer ([65, 57, 77, 69, 77, 49, 53, 52, 49] @ replicate 23 0) = ''A9MEM1541''"
  by code_simp

lemma parse_A9MEM1541_cons:
  "parseAsciiBuffer (65 # 57 # 77 # 69 # 77 # 49 # 53 # 52 # 49 # replicate 23 0) = ''A9MEM1541''"
  using parse_A9MEM1541 by simp

lemma table_chunks:
  assumes "length t = 990"
  shows "take 250 t @ take 250 (drop 250 t) @ take 250 (drop 500 t) @ take 240 (drop 750 t) = t"
proof -
  have "take 250 (drop 500 t) @ take 240 (drop 750 t) = take 490 (drop 500 t)"
    using take_add [of 250 240 "drop 500 t"] by simp
  then have "take 250 (drop 250 t) @ take 250 (drop 500 t) @ take 240 (drop 750 t) =
      take 740 (drop 250 t)"
    using take_add [of 250 490 "drop 250 t"] by simp
  then have "take 250 t @ take 250 (drop 250 t) @ take 250 (drop 500 t) @ take 240 (drop 750 t) =
      take 990 t"
    using take_add [of 250 740 t] by simp
  with assms show ?thesis by simp
qed

lemma gw_panel_replies:
  "replies (setUnitId 255 c) (snd (readPanelServerDeviceAddresses (gw_panel t) (setUnitId 255 c))) =
     [Reply (take 250 t), Reply (take 250 (drop 250 t)), Reply (take 250 (drop 500 t)),
      Reply (take 240 (drop 750 t))]"
  by (simp add: readPanelServerDeviceAddresses_def Let_def split_beta readHoldingRegisters_def
      request_def replies_def transactions_def setUnitId_def gw_panel_read REG_defs)

lemma gw_panel_addresses:
  assumes "length t = 990"
  shows "fst (readPanelServerDeviceAddresses (gw_panel t) (setUnitId 255 c)) =
           Inr (occupied_slots t)"
proof -
  have "fst (readPanelServerDeviceAddresses (gw_panel t) (setUnitId 255 c)) =
      Inr (occupied_slots (take 250 t @ take 250 (drop 250 t) @ take 250 (drop 500 t) @
                           take 240 (drop 750 t)))"
    by (rule readPanelServerDeviceAddresses_table [OF gw_panel_replies]) (use assms in simp_all)
  then show ?thesis by (simp only: table_chunks [OF assms])
qed

lemma gw_panel_slot:
  assumes "u < 255"
  shows "panelServerSlot reg_sample (gw_panel t) settings_sample u devices c =
           (devices @ [buildDeviceEntry reg_sample settings_sample u 41 model_sample []],
            fst (snd (panelServerSlot reg_sample (gw_panel t) settings_sample u devices c)), False)"
  using assms
  by (simp add: panelServerSlot_def panelServerSlot_try_def Let_def split_beta
      readCommercialReference_eq readDeviceName_eq setUnitId_def gw_panel_read settle_def
      parse_A9MEM1541_cons reg_sample_def model_sample_def REG_defs)

lemma gw_panel_loop:
  assumes "\<forall>p\<in>set addressMap. snd p < 255"
  shows "fst (panelServer_loop reg_sample (gw_panel t) settings_sample addressMap devices c False) =
           Some (devices @
                 map (\<lambda>p. buildDeviceEntry reg_sample settings_sample (snd p) 41 model_sample [])
                   addressMap)"
  using assms
proof (induction addressMap arbitrary: devices c)
  case Nil
  show ?case by simp
next
  case (Cons p addressMap)
  obtain slot unitId where p: "p = (slot, unitId)" by (cases p)
  with Cons.prems have u: "unitId < 255" by simp
  from Cons.prems have r: "\<forall>p\<in>set addressMap. snd p < 255" by simp
  show ?case
    by (subst p, subst panelServer_loop.simps, subst gw_panel_slot [OF u])
      (simp add: p Cons.IH [OF r])
qed

lemma gw_panel_discover:
  assumes "length t = 990" "\<forall>p\<in>set (occupied_slots t). snd p < 255"
  shows "fst (discoverViaPanelServer reg_sample (gw_panel t) settings_sample client0) =
           Inr (map (\<lambda>p. buildDeviceEntry reg_sample settings_sample (snd p) 41 model_sample [])
                  (occupied_slots t))"
proof -
  obtain r c2 where a: "readPanelServerDeviceAddresses (gw_panel t) (setUnitId 255 client0) = (r, c2)"
    by (cases "readPanelServerDeviceAddresses (gw_panel t) (setUnitId 255 client0)")
  with gw_panel_addresses [OF assms(1), of client0] have r: "r = Inr (occupied_slots t)" by simp
  show ?thesis
    using gw_panel_loop [OF assms(2), of t "[]" c2]
    by (auto simp: discoverViaPanelServer_def Let_def a r split: prod.splits option.splits)
qed

lemma occupied_slot5: "occupied_slots table_slot5 = [(5, 42)]"
  by (simp add: occupied_slots_def slot_value_def table_slot5_def nth_append upt_conv_Cons)

lemma occupied_twice: "occupied_slots table_twice = [(1, 42), (2, 42)]"
  by (simp add: occupied_slots_def slot_value_def table_twice_def nth_append upt_conv_Cons)

lemma occupied_two: "occupied_slots table_two = [(1, 42), (2, 43)]"
  by (simp add: occupied_slots_def slot_value_def table_two_def nth_append upt_conv_Cons)

lemma occupied_150: "occupied_slots table_150 = [(1, 150)]"
  by (simp add: occupied_slots_def slot_value_def table_150_def nth_append upt_conv_Cons)

lemma occupied_300: "occupied_slots table_300 = [(1, 300)]"
  by (simp add: occupied_slots_def slot_value_def table_300_def nth_append upt_conv_Cons)

lemma discover_slot5:
  "fst (discoverDevices reg_sample (gw_panel table_slot5) settings_sample Connected) =
     Inr [buildDeviceEntry reg_sample settings_sample 42 41 model_sample []]"
proof -
  have "fst (discoverViaPanelServer reg_sample (gw_panel table_slot5) settings_sample client0) =
      Inr [buildDeviceEntry reg_sample settings_sample 42 41 model_sample []]"
    using gw_panel_discover [of table_slot5] by (simp add: occupied_slot5) (simp add: table_slot5_def)
  from discoverDevices_panel [OF this] show ?thesis by simp
qed

lemma discover_twice:
  "fst (discoverDevices reg_sample (gw_panel table_twice) settings_sample Connected) =
     Inr [buildDeviceEntry reg_sample settings_sample 42 41 model_sample [],
          buildDeviceEntry reg_sample settings_sample 42 41 model_sample []]"
proof -
  have "fst (discoverViaPanelServer reg_sample (gw_panel table_twice) settings_sample client0) =
      Inr [buildDeviceEntry reg_sample settings_sample 42 41 model_sample [],
           buildDeviceEntry reg_sample settings_sample 42 41 model_sample []]"
    using gw_panel_discover [of table_twice] by (simp add: occupied_twice) (simp add: table_twice_def)
  from discoverDevices_panel [OF this] show ?thesis by simp
qed

lemma discover_two:
  "fst (discoverViaPanelServer reg_sample (gw_panel table_two) settings_sample client0) =
     Inr [buildDeviceEntry reg_sample settings_sample 42 41 model_sample [],
          buildDeviceEntry reg_sample settings_sample 43 41 model_sample []]"
  using gw_panel_discover [of table_two] by (simp add: occupied_two) (simp add: table_two_def)

text \<open>
  The sample Panel Server with unit id 300 in slot 1 of its address table: the round for
  that slot blocks the client and finds no device, so the Panel-Server strategy returns
  the empty list on a blocked client.
\<close>

lemma discover_300:
  "discoverViaPanelServer reg_sample (gw_panel table_300) settings_sample client0 =
     (Inr [], setUnitId 300 (snd (readPanelServerDeviceAddresses (gw_panel table_300)
                                     (setUnitId 255 client0))), True)"
proof -
  obtain r c2 where a: "readPanelServerDeviceAddresses (gw_panel table_300) (setUnitId 255 client0) = (r, c2)"
    by (cases "readPanelServerDeviceAddresses (gw_panel table_300) (setUnitId 255 client0)")
  have "length table_300 = 990" by (simp add: table_300_def)
  from gw_panel_addresses [OF this, of client0] a have r: "r = Inr [(1, 300)]"
    by (simp add: occupied_300)
  show ?thesis
    by (simp add: discoverViaPanelServer_def Let_def a r panelServerSlot_blocked)
qed

section \<open>The sample gateway with two devices in the scan range\<close>

lemma gw_mixed_read:
  "gw_mixed table h (ReadHoldingRegisters u start count) =
     (if u = 255 then
        (if 504 \<le> start \<and> start + count \<le> 999
         then Reply (take (2 * count) (drop (2 * (start - 504)) table))
         else ModbusException 2)
      else if start = REG_DEVICE_TYPE \<and> (u = 150 \<or> u = 151)
      then Reply [0, 41]
      else Timeout)"
  by (simp add: gw_mixed_def)

lemma gw_mixed_replies:
  "replies (setUnitId 255 c) (snd (readPanelServerDeviceAddresses (gw_mixed t) (setUnitId 255 c))) =
     [Reply (take 250 t), Reply (take 250 (drop 250 t)), Reply (take 250 (drop 500 t)),
      Reply (take 240 (drop 750 t))]"
  by (simp add: readPanelServerDeviceAddresses_def Let_def split_beta readHoldingRegisters_def
      request_def replies_def transactions_def setUnitId_def gw_mixed_read REG_defs)

lemma gw_mixed_addresses:
  assumes "length t = 990"
  shows "fst (readPanelServerDeviceAddresses (gw_mixed t) (setUnitId 255 c)) =
           Inr (occupied_slots t)"
proof -
  have "fst (readPanelServerDeviceAddresses (gw_mixed t) (setUnitId 255 c)) =
      Inr (occupied_slots (take 250 t @ take 250 (drop 250 t) @ take 250 (drop 500 t) @
                           take 240 (drop 750 t)))"
    by (rule readPanelServerDeviceAddresses_table [OF gw_mixed_replies]) (use assms in simp_all)
  then show ?thesis by (simp only: table_chunks [OF assms])
qed

text \<open>
  On that gateway with unit 150 in slot 1 of the address table, the Panel-Server strategy
  finds nothing (unit 150 does not answer the read of the commercial reference) and the
  range scan finds the units 150 and 151.
\<close>

lemma gw_mixed_slot:
  "fst (panelServerSlot reg_sample (gw_mixed t) settings_sample 150 devices c) = devices \<and>
   \<not> snd (snd (panelServerSlot reg_sample (gw_mixed t) settings_sample 150 devices c))"
  by (simp add: panelServerSlot_def panelServerSlot_try_def Let_def
      readCommercialReference_eq setUnitId_def gw_mixed_read settle_def REG_defs)

lemma discover_mixed_panel:
  "fst (discoverViaPanelServer reg_sample (gw_mixed table_150) settings_sample client0) = Inr [] \<and>
   \<not> snd (snd (discoverViaPanelServer reg_sample (gw_mixed table_150) settings_sample client0))"
proof -
  obtain r c2 where a: "readPanelServerDeviceAddresses (gw_mixed table_150) (setUnitId 255 client0) = (r, c2)"
    by (cases "readPanelServerDeviceAddresses (gw_mixed table_150) (setUnitId 255 client0)")
  have "length table_150 = 990" by (simp add: table_150_def)
  from gw_mixed_addresses [OF this, of client0] a have r: "r = Inr [(1, 150)]"
    by (simp add: occupied_150)
  show ?thesis
    by (simp add: discoverViaPanelServer_def Let_def a r split_beta gw_mixed_slot)
qed

lemma scan_mixed:
  "fst (scanUnitRange reg_sample (gw_mixed t) settings_sample 150 170 10 c) =
     [buildDeviceEntry reg_sample settings_sample 150 41 model_sample [],
      buildDeviceEntry reg_sample settings_sample 151 41 model_sample []]"
  "fst (scanUnitRange reg_sample (gw_mixed t) settings_sample 100 150 3 c') = []"
  "fst (scanUnitRange reg_sample (gw_mixed t) settings_sample 170 200 3 c'') = []"
  by (simp_all add: scan_eval gw_mixed_read reg_sample_def REG_defs)

lemma discover_mixed:
  "fst (discoverDevices reg_sample (gw_mixed table_150) settings_sample Connected) =
     Inr [buildDeviceEntry reg_sample settings_sample 150 41 model_sample [],
          buildDeviceEntry reg_sample settings_sample 151 41 model_sample []]"
proof -
  from discover_mixed_panel have
    "fst (discoverViaPanelServer reg_sample (gw_mixed table_150) settings_sample client0) = Inr [] \<or>
     (\<exists>e. fst (discoverViaPanelServer reg_sample (gw_mixed table_150) settings_sample client0) =
        Inl (Raised e))"
    "\<not> snd (snd (discoverViaPanelServer reg_sample (gw_mixed table_150) settings_sample client0))"
    by simp_all
  from discoverDevices_scan [OF this] show ?thesis by (simp add: scan_mixed)
qed

section \<open>The claims about discovery\<close>

lemma failed_settle: "failed resp \<Longrightarrow> \<exists>e. settle resp = Inl e"
  by (cases resp) (simp_all add: failed_def settle_def)

lemma panel_fails:
  assumes "\<forall>h req. failed (gw h req)"
  shows "(\<exists>e. fst (discoverViaPanelServer reg gw settings c) = Inl (Raised e)) \<and>
         \<not> snd (snd (discoverViaPanelServer reg gw settings c))"
proof -
  let ?c = "setUnitId 255 c"
  from assms failed_settle obtain e where
    "settle (gw (cl_log ?c) (ReadHoldingRegisters (cl_unitId ?c) 504 125)) = Inl e"
    by blast
  then have "fst (readPanelServerDeviceAddresses gw ?c) = Inl e"
    by (simp add: readPanelServerDeviceAddresses_reads split_beta Let_def
        readHoldingRegisters_def request_def)
  then show ?thesis
    by (simp add: discoverViaPanelServer_def Let_def split_beta)
qed

text \<open>
  What holds of discovery for every gateway: it never throws once the socket is connected;
  it throws a connection error, before any request, when the socket could not be
  connected; it returns a list when every unit id of the address table, if the table
  could be read, fits the unit-id byte; and that list is empty on a gateway that answers
  no request at all.
\<close>

lemma discoverDevices_throws:
  fixes reg :: "('cap, 'opt) registry"
  assumes "fst (discoverDevices reg gw settings conn) = Inl (Raised e)"
  shows "conn \<noteq> Connected \<and> (\<exists>msg. e = ConnectionError msg) \<and>
         cl_log (snd (discoverDevices reg gw settings conn)) = []"
proof (cases conn)
  case Connected
  with assms show ?thesis
    by (auto simp: discoverDevices_def Let_def split: prod.splits sum.splits failure.splits
        if_splits)
next
  case ConnectTimeout
  with assms show ?thesis by (auto simp: discoverDevices_def)
next
  case (SocketError msg)
  with assms show ?thesis by (auto simp: discoverDevices_def)
qed

lemma discoverDevices_returns:
  fixes reg :: "('cap, 'opt) registry"
  assumes "\<forall>addressMap. fst (readPanelServerDeviceAddresses gw (setUnitId 255 client0)) = Inr addressMap \<longrightarrow>
             (\<forall>p\<in>set addressMap. snd p \<le> 255)"
  shows "\<exists>devices. fst (discoverDevices reg gw settings Connected) = Inr devices"
proof -
  let ?P = "discoverViaPanelServer reg gw settings client0"
  from discoverViaPanelServer_settles [OF assms, of reg settings] have
    s: "fst ?P \<noteq> Inl NeverSettles" "\<not> snd (snd ?P)" by simp_all
  show ?thesis
  proof (cases "\<exists>found. fst ?P = Inr found \<and> found \<noteq> []")
    case True
    then obtain found where "fst ?P = Inr found" "found \<noteq> []" by blast
    from discoverDevices_panel [OF this] show ?thesis by simp
  next
    case False
    with s(1) have "fst ?P = Inr [] \<or> (\<exists>e. fst ?P = Inl (Raised e))"
      by (cases "fst ?P") (auto intro: failure.exhaust)
    from discoverDevices_scan [OF this s(2)] show ?thesis by simp
  qed
qed

lemma discoverDevices_silent:
  fixes reg :: "('cap, 'opt) registry"
  assumes f: "\<forall>h req. failed (gw h req)"
  shows "fst (discoverDevices reg gw settings Connected) = Inr []"
proof -
  from f have t: "\<forall>h u. failed (gw h (ReadHoldingRegisters u REG_DEVICE_TYPE 1))" by blast
  from panel_fails [OF f, of reg settings client0] have
    "fst (discoverViaPanelServer reg gw settings client0) = Inr [] \<or>
     (\<exists>e. fst (discoverViaPanelServer reg gw settings client0) = Inl (Raised e))"
    "\<not> snd (snd (discoverViaPanelServer reg gw settings client0))" by blast+
  note s = discoverDevices_scan [OF this]
  have a: "fst (scanUnitRange reg gw settings a b m c) = []" if "0 < m" for a b m c
    using scan_loop_all_fail [OF t, of 0 m reg settings b a "[]" c] that
    by (simp add: scanUnitRange_def)
  show ?thesis unfolding s by (simp add: a)
qed

text \<open>
  C1 does not hold of the code. The address table of the gateway is trusted: a unit id
  above 255 read from it is set in the client unchecked. On the sample Panel Server whose
  slot 1 holds unit id 300 the table is read, the round for slot 1 throws a \<open>RangeError\<close>
  that is caught and leaves the client blocked, the Panel-Server strategy returns the
  empty list, and the range scan that follows awaits a read that never settles: discovery
  neither returns a list nor throws.
\<close>

theorem discoverDevices_never_settles:
  "occupied_slots table_300 = [(1, 300)] \<and>
   fst (readPanelServerDeviceAddresses (gw_panel table_300) (setUnitId 255 client0)) =
     Inr [(1, 300)] \<and>
   fst (panelServerSlot_try reg_sample (gw_panel table_300) settings_sample 300 []
          (snd (readPanelServerDeviceAddresses (gw_panel table_300) (setUnitId 255 client0)))) =
     Inl RangeError \<and>
   fst (discoverViaPanelServer reg_sample (gw_panel table_300) settings_sample client0) = Inr [] \<and>
   snd (snd (discoverViaPanelServer reg_sample (gw_panel table_300) settings_sample client0)) \<and>
   fst (discoverDevices reg_sample (gw_panel table_300) settings_sample Connected) =
     Inl NeverSettles"
proof -
  have "length table_300 = 990" by (simp add: table_300_def)
  from gw_panel_addresses [OF this, of client0] have
    a: "fst (readPanelServerDeviceAddresses (gw_panel table_300) (setUnitId 255 client0)) =
          Inr [(1, 300)]"
    by (simp add: occupied_300)
  have t: "fst (panelServerSlot_try reg_sample (gw_panel table_300) settings_sample 300 []
          (snd (readPanelServerDeviceAddresses (gw_panel table_300) (setUnitId 255 client0)))) =
     Inl RangeError"
    by (simp add: panelServerSlot_try_def Let_def)
  have p: "fst (discoverViaPanelServer reg_sample (gw_panel table_300) settings_sample client0) = Inr []"
    "snd (snd (discoverViaPanelServer reg_sample (gw_panel table_300) settings_sample client0))"
    by (simp_all add: discover_300)
  then have "fst (discoverViaPanelServer reg_sample (gw_panel table_300) settings_sample client0) =
       Inl NeverSettles \<or>
     ((fst (discoverViaPanelServer reg_sample (gw_panel table_300) settings_sample client0) = Inr [] \<or>
       (\<exists>e. fst (discoverViaPanelServer reg_sample (gw_panel table_300) settings_sample client0) =
          Inl (Raised e))) \<and>
      snd (snd (discoverViaPanelServer reg_sample (gw_panel table_300) settings_sample client0)))"
    by simp
  from discoverDevices_hangs [OF this] have
    "fst (discoverDevices reg_sample (gw_panel table_300) settings_sample Connected) =
       Inl NeverSettles" by simp
  with occupied_300 a t p show ?thesis by (intro conjI)
qed

text \<open>
  C2 (amended): in one discovery run the device-type register of no unit is read twice.
  The unit ids of the devices that the Panel-Server strategy returns are, in this order,
  unit ids of slots of the address table, at most one device for each slot. A list
  returned after the Panel-Server strategy found no device or failed has no two entries
  with the same unit id. A returned list has no two entries with the same unit id when
  the occupied slots of the address table hold pairwise different unit ids.
\<close>

theorem discovered_units_distinct:
  fixes reg :: "('cap, 'opt) registry"
  shows
  "distinct (map (req_unit \<circ> fst)
              (typeReads (cl_log (snd (discoverDevices reg gw settings Connected))))) \<and>
   (fst (discoverViaPanelServer reg gw settings client0) = Inr found \<longrightarrow>
      (\<exists>slots. fst (readPanelServerDeviceAddresses gw (setUnitId 255 client0)) = Inr slots \<and>
         subseq (map store_unitId found) (map snd slots))) \<and>
   (fst (discoverDevices reg gw settings Connected) = Inr devices \<and>
    (fst (discoverViaPanelServer reg gw settings client0) = Inr [] \<or>
     (\<exists>e. fst (discoverViaPanelServer reg gw settings client0) = Inl (Raised e))) \<longrightarrow>
      distinct (map store_unitId devices)) \<and>
   (fst (discoverDevices reg gw settings Connected) = Inr devices \<and>
    fst (readPanelServerDeviceAddresses gw (setUnitId 255 client0)) = Inr addressMap \<and>
    distinct (map snd addressMap) \<longrightarrow>
      distinct (map store_unitId devices))"
proof -
  let ?P = "discoverViaPanelServer reg gw settings client0"
  let ?D = "discoverDevices reg gw settings Connected"
  let ?S1 = "scanUnitRange reg gw settings 150 170 10 (fst (snd ?P))"
  let ?S2 = "scanUnitRange reg gw settings 100 150 3 (snd ?S1)"
  let ?S3 = "scanUnitRange reg gw settings 170 200 3 (snd ?S2)"
  from discoverViaPanelServer_result [of reg gw settings client0] obtain tsP where
    p: "cl_log (fst (snd ?P)) = tsP" "typeReads tsP = []"
       "\<forall>found. fst ?P = Inr found \<longrightarrow>
          (\<exists>slots. fst (readPanelServerDeviceAddresses gw (setUnitId 255 client0)) = Inr slots \<and>
             subseq (map store_unitId found) (map snd slots))"
    by (auto simp: client0_def)
  from three_scans [of reg gw settings "fst (snd ?P)"] obtain ts where
    ts: "cl_log (snd ?S3) = cl_log (fst (snd ?P)) @ ts"
        "distinct (map (req_unit \<circ> fst) (typeReads ts))"
        "distinct (map store_unitId (fst ?S1 @ fst ?S2 @ fst ?S3))"
    by blast
  have idle: "fst ?P = Inr [] \<or> (\<exists>e. fst ?P = Inl (Raised e))"
    if "fst ?P \<noteq> Inl NeverSettles" "\<not> (\<exists>found. fst ?P = Inr found \<and> found \<noteq> [])"
    using that by (cases "fst ?P") (auto intro: failure.exhaust)
  have scan: "?D = (Inr (fst ?S1 @ fst ?S2 @ fst ?S3), snd ?S3)"
    if "fst ?P = Inr [] \<or> (\<exists>e. fst ?P = Inl (Raised e))" "\<not> snd (snd ?P)"
    using that by (rule discoverDevices_scan)
  have hang: "?D = (Inl NeverSettles, fst (snd ?P))"
    if "fst ?P = Inl NeverSettles \<or>
        ((fst ?P = Inr [] \<or> (\<exists>e. fst ?P = Inl (Raised e))) \<and> snd (snd ?P))"
    using that by (rule discoverDevices_hangs)
  have outcome: "(\<exists>found. fst ?P = Inr found \<and> found \<noteq> []) \<or>
      ((fst ?P = Inr [] \<or> (\<exists>e. fst ?P = Inl (Raised e))) \<and> \<not> snd (snd ?P)) \<or>
      (fst ?P = Inl NeverSettles \<or>
       ((fst ?P = Inr [] \<or> (\<exists>e. fst ?P = Inl (Raised e))) \<and> snd (snd ?P)))"
  proof (cases "fst ?P")
    case (Inl f)
    then show ?thesis by (cases f) auto
  next
    case (Inr found)
    then show ?thesis by (cases found) auto
  qed
  have reads: "distinct (map (req_unit \<circ> fst) (typeReads (cl_log (snd ?D))))"
  proof -
    have panel: ?thesis if "fst ?P = Inr found" "found \<noteq> []" for found
      using discoverDevices_panel [OF that] p(1,2) by simp
    have scanning: ?thesis
      if s: "(fst ?P = Inr [] \<or> (\<exists>e. fst ?P = Inl (Raised e))) \<and> \<not> snd (snd ?P)"
    proof -
      have "cl_log (snd ?D) = tsP @ ts"
        unfolding scan [OF s [THEN conjunct1] s [THEN conjunct2]] using ts(1) p(1) by simp
      then have "typeReads (cl_log (snd ?D)) = typeReads ts"
        using p(2) by (simp add: typeReads_append)
      with ts(2) show ?thesis by simp
    qed
    have hanging: ?thesis
      if "fst ?P = Inl NeverSettles \<or>
          ((fst ?P = Inr [] \<or> (\<exists>e. fst ?P = Inl (Raised e))) \<and> snd (snd ?P))"
      using hang [OF that] p(1,2) by simp
    from outcome show ?thesis
    proof (elim disjE exE conjE)
      fix found assume "fst ?P = Inr found" "found \<noteq> []"
      then show ?thesis by (rule panel)
    qed (use scanning hanging in blast)+
  qed
  have scanned: "distinct (map store_unitId devices)"
    if d: "fst ?D = Inr devices"
      and n: "fst ?P = Inr [] \<or> (\<exists>e. fst ?P = Inl (Raised e))"
  proof (cases "snd (snd ?P)")
    case True
    with n have "fst ?P = Inl NeverSettles \<or>
        ((fst ?P = Inr [] \<or> (\<exists>e. fst ?P = Inl (Raised e))) \<and> snd (snd ?P))" by simp
    from hang [OF this] d show ?thesis by simp
  next
    case False
    from d have "devices = fst ?S1 @ fst ?S2 @ fst ?S3"
      unfolding scan [OF n False] by simp
    with ts(3) show ?thesis by simp
  qed
  have table: "distinct (map store_unitId devices)"
    if d: "fst ?D = Inr devices"
      and a: "fst (readPanelServerDeviceAddresses gw (setUnitId 255 client0)) = Inr addressMap"
      and t: "distinct (map snd addressMap)"
  proof (cases "\<exists>found. fst ?P = Inr found \<and> found \<noteq> []")
    case True
    then obtain found where f: "fst ?P = Inr found" "found \<noteq> []" by blast
    from discoverDevices_panel [OF f] d have e: "devices = found" by simp
    from p(3) f(1) a have "subseq (map store_unitId found) (map snd addressMap)" by auto
    then have "distinct (map store_unitId found)" using t by (rule subseq_distinct)
    with e show ?thesis by simp
  next
    case False
    have "fst ?P \<noteq> Inl NeverSettles"
    proof
      assume "fst ?P = Inl NeverSettles"
      then have "fst ?P = Inl NeverSettles \<or>
        ((fst ?P = Inr [] \<or> (\<exists>e. fst ?P = Inl (Raised e))) \<and> snd (snd ?P))" by simp
      from hang [OF this] d show False by simp
    qed
    then have "fst ?P = Inr [] \<or> (\<exists>e. fst ?P = Inl (Raised e))"
      using False by (rule idle)
    with d show ?thesis by (rule scanned)
  qed
  from p(3) have sub: "fst ?P = Inr found \<longrightarrow>
      (\<exists>slots. fst (readPanelServerDeviceAddresses gw (setUnitId 255 client0)) = Inr slots \<and>
         subseq (map store_unitId found) (map snd slots))" by blast
  from reads sub scanned table show ?thesis by blast
qed

theorem discovered_units_distinct_witness:
  "fst (discoverViaPanelServer reg_sample (gw_panel table_two) settings_sample client0) =
     Inr [buildDeviceEntry reg_sample settings_sample 42 41 model_sample [],
          buildDeviceEntry reg_sample settings_sample 43 41 model_sample []] \<and>
   fst (readPanelServerDeviceAddresses (gw_panel table_two) (setUnitId 255 client0)) =
     Inr [(1, 42), (2, 43)] \<and>
   subseq (map store_unitId [buildDeviceEntry reg_sample settings_sample 42 41 model_sample [],
                             buildDeviceEntry reg_sample settings_sample 43 41 model_sample []])
          (map snd [(1 :: nat, 42 :: nat), (2, 43)]) \<and>
   fst (discoverDevices reg_sample (gw_panel table_two) settings_sample Connected) =
     Inr [buildDeviceEntry reg_sample settings_sample 42 41 model_sample [],
          buildDeviceEntry reg_sample settings_sample 43 41 model_sample []] \<and>
   distinct (map snd [(1 :: nat, 42 :: nat), (2, 43)]) \<and>
   distinct (map store_unitId [buildDeviceEntry reg_sample settings_sample 42 41 model_sample [],
                               buildDeviceEntry reg_sample settings_sample 43 41 model_sample []]) \<and>
   fst (discoverViaPanelServer reg_sample (gw_mixed table_150) settings_sample client0) = Inr [] \<and>
   fst (discoverDevices reg_sample (gw_mixed table_150) settings_sample Connected) =
     Inr [buildDeviceEntry reg_sample settings_sample 150 41 model_sample [],
          buildDeviceEntry reg_sample settings_sample 151 41 model_sample []] \<and>
   distinct (map store_unitId [buildDeviceEntry reg_sample settings_sample 150 41 model_sample [],
                               buildDeviceEntry reg_sample settings_sample 151 41 model_sample []]) \<and>
   distinct (map (req_unit \<circ> fst) (typeReads (cl_log (snd (discoverDevices reg_sample
      (gw_mixed table_150) settings_sample Connected)))))"
proof -
  let ?two = "[buildDeviceEntry reg_sample settings_sample 42 41 model_sample [],
               buildDeviceEntry reg_sample settings_sample 43 41 model_sample []]"
  let ?scan = "[buildDeviceEntry reg_sample settings_sample 150 41 model_sample [],
                buildDeviceEntry reg_sample settings_sample 151 41 model_sample []]"
  have len: "length table_two = 990" by (simp add: table_two_def)
  have a: "fst (readPanelServerDeviceAddresses (gw_panel table_two) (setUnitId 255 client0)) =
     Inr [(1, 42), (2, 43)]"
    using gw_panel_addresses [OF len, of client0] by (simp add: occupied_two)
  have "?two \<noteq> []" by simp
  from discoverDevices_panel [OF discover_two this] have
    d: "fst (discoverDevices reg_sample (gw_panel table_two) settings_sample Connected) = Inr ?two"
    by simp
  have t: "distinct (map snd [(1 :: nat, 42 :: nat), (2, 43)])" by simp
  note n = discover_mixed_panel [THEN conjunct1]
  note t1 = discovered_units_distinct [where reg = reg_sample and gw = "gw_panel table_two" and
      settings = settings_sample and found = ?two and devices = ?two and
      addressMap = "[(1, 42), (2, 43)]"]
  note t2 = discovered_units_distinct [where reg = reg_sample and gw = "gw_mixed table_150" and
      settings = settings_sample and devices = ?scan]
  note c2 = conjunct2
  from t1 [THEN c2, THEN conjunct1, THEN mp, OF discover_two] a
  have 1: "subseq (map store_unitId ?two) (map snd [(1 :: nat, 42 :: nat), (2, 43)])"
    by auto
  from d a t have "fst (discoverDevices reg_sample (gw_panel table_two) settings_sample Connected) =
      Inr ?two \<and>
    fst (readPanelServerDeviceAddresses (gw_panel table_two) (setUnitId 255 client0)) =
      Inr [(1, 42), (2, 43)] \<and>
    distinct (map snd [(1 :: nat, 42 :: nat), (2, 43)])" by (intro conjI)
  note 2 = t1 [THEN c2, THEN c2, THEN c2, THEN mp, OF this]
  from discover_mixed n have
    "fst (discoverDevices reg_sample (gw_mixed table_150) settings_sample Connected) = Inr ?scan \<and>
     (fst (discoverViaPanelServer reg_sample (gw_mixed table_150) settings_sample client0) = Inr [] \<or>
      (\<exists>e. fst (discoverViaPanelServer reg_sample (gw_mixed table_150) settings_sample client0) =
         Inl (Raised e)))" by simp
  note 3 = t2 [THEN c2, THEN c2, THEN conjunct1, THEN mp, OF this]
  note 4 = t2 [THEN conjunct1]
  from discover_two a 1 d t 2 n discover_mixed 3 4 show ?thesis by (intro conjI)
qed

text \<open>
  C2 as stated fails when two slots of the address table hold the same unit id: both
  slots are visited and both are emitted.
\<close>

theorem duplicate_units_counterexample:
  "fst (discoverDevices reg_sample (gw_panel table_twice) settings_sample Connected) =
     Inr [buildDeviceEntry reg_sample settings_sample 42 41 model_sample [],
          buildDeviceEntry reg_sample settings_sample 42 41 model_sample []] \<and>
   map store_unitId [buildDeviceEntry reg_sample settings_sample 42 41 model_sample [],
                     buildDeviceEntry reg_sample settings_sample 42 41 model_sample []] = [42, 42] \<and>
   \<not> distinct (map store_unitId
        [buildDeviceEntry reg_sample settings_sample 42 41 model_sample [],
         buildDeviceEntry reg_sample settings_sample 42 41 model_sample []])"
  using discover_twice by (simp add: store_buildDeviceEntry)

lemma subseq_subset: "subseq xs ys \<Longrightarrow> set xs \<subseteq> set ys"
  by (auto elim: list_emb_set)

lemma readPanelServerDeviceAddresses_values:
  assumes "fst (readPanelServerDeviceAddresses gw c) = Inr addressMap"
  shows "\<forall>p\<in>set addressMap. snd p \<noteq> 0 \<and> snd p \<noteq> 65535"
proof -
  let ?ps = "fst (issueReads gw [(504, 125), (629, 125), (754, 125), (879, 120)] c)"
  from assms have "andThen (Promise_all ?ps) (\<lambda>chunks. addresses_loop chunks 1 []) = Inr addressMap"
    by (simp only: readPanelServerDeviceAddresses_reads fst_conv)
  then obtain chunks where "addresses_loop chunks 1 [] = Inr addressMap"
    by (cases "Promise_all ?ps") simp_all
  then show ?thesis by (rule addresses_loop_values) simp
qed

text \<open>
  C6: a unit id of 0 or 65535 read from the address table never enters the address map
  (under a well-formed table the slot holding it has no entry), so no device of the
  Panel-Server strategy carries such a unit id; and a unit whose device-type read in a
  range scan returned 0 or 65535 has no device in the result of that scan.
\<close>

theorem empty_units_not_emitted:
  fixes reg :: "('cap, 'opt) registry"
  shows
  "(fst (readPanelServerDeviceAddresses gw c) = Inr addressMap \<longrightarrow>
      (\<forall>p\<in>set addressMap. snd p \<noteq> 0 \<and> snd p \<noteq> 65535)) \<and>
   (replies c (snd (readPanelServerDeviceAddresses gw c)) =
        [Reply buf_a, Reply buf_b, Reply buf_c, Reply buf_d] \<and>
      length buf_a = 250 \<and> length buf_b = 250 \<and> length buf_c = 250 \<and> length buf_d = 240 \<and>
      (slot_value (buf_a @ buf_b @ buf_c @ buf_d) s = 0 \<or> slot_value (buf_a @ buf_b @ buf_c @ buf_d) s = 65535) \<longrightarrow>
      (\<exists>table. fst (readPanelServerDeviceAddresses gw c) = Inr table \<and> map_of table s = None)) \<and>
   (fst (discoverViaPanelServer reg gw settings c) = Inr devices \<longrightarrow>
      (\<forall>d\<in>set devices. store_unitId d \<noteq> 0 \<and> store_unitId d \<noteq> 65535)) \<and>
   ((ReadHoldingRegisters u REG_DEVICE_TYPE 1, Reply body) \<in>
        set (transactions c (snd (scanUnitRange reg gw settings startId endId m c))) \<and>
      readUInt16BE body 0 = Inr v \<and> (v = 0 \<or> v = 65535) \<longrightarrow>
      u \<notin> store_unitId ` set (fst (scanUnitRange reg gw settings startId endId m c)))"
proof -
  have 1: "\<forall>p\<in>set addressMap. snd p \<noteq> 0 \<and> snd p \<noteq> 65535"
    if "fst (readPanelServerDeviceAddresses gw c) = Inr addressMap"
    using that by (rule readPanelServerDeviceAddresses_values)
  have 2: "\<exists>table. fst (readPanelServerDeviceAddresses gw c) = Inr table \<and> map_of table s = None"
    if "replies c (snd (readPanelServerDeviceAddresses gw c)) =
          [Reply buf_a, Reply buf_b, Reply buf_c, Reply buf_d]"
      "length buf_a = 250" "length buf_b = 250" "length buf_c = 250" "length buf_d = 240"
      "slot_value (buf_a @ buf_b @ buf_c @ buf_d) s = 0 \<or> slot_value (buf_a @ buf_b @ buf_c @ buf_d) s = 65535"
  proof -
    from that(1-5) have "fst (readPanelServerDeviceAddresses gw c) =
        Inr (occupied_slots (buf_a @ buf_b @ buf_c @ buf_d))"
      by (rule readPanelServerDeviceAddresses_table)
    moreover from that(6) have "map_of (occupied_slots (buf_a @ buf_b @ buf_c @ buf_d)) s = None"
      by (auto simp: map_of_occupied_slots)
    ultimately show ?thesis by blast
  qed
  have 3: "\<forall>d\<in>set devices. store_unitId d \<noteq> 0 \<and> store_unitId d \<noteq> 65535"
    if d: "fst (discoverViaPanelServer reg gw settings c) = Inr devices"
  proof -
    from discoverViaPanelServer_result [of reg gw settings c] d obtain addressMap where
      a: "fst (readPanelServerDeviceAddresses gw (setUnitId 255 c)) = Inr addressMap"
         "subseq (map store_unitId devices) (map snd addressMap)"
      by blast
    from a(2) have "set (map store_unitId devices) \<subseteq> set (map snd addressMap)"
      by (rule subseq_subset)
    moreover from a(1) have "\<forall>p\<in>set addressMap. snd p \<noteq> 0 \<and> snd p \<noteq> 65535"
      by (rule readPanelServerDeviceAddresses_values)
    ultimately show ?thesis by fastforce
  qed
  have 4: "u \<notin> store_unitId ` set (fst (scanUnitRange reg gw settings startId endId m c))"
    if "(ReadHoldingRegisters u REG_DEVICE_TYPE 1, Reply body) \<in>
          set (transactions c (snd (scanUnitRange reg gw settings startId endId m c)))"
       "readUInt16BE body 0 = Inr v" "v = 0 \<or> v = 65535"
  proof -
    from scan_loop_scanned [of reg gw settings endId m startId 0 "[]" c] obtain ts where
      ts: "cl_log (snd (scanUnitRange reg gw settings startId endId m c)) = cl_log c @ ts"
          "scanned startId (max startId endId) ts (fst (scanUnitRange reg gw settings startId endId m c))"
      by (auto simp: scanUnitRange_def)
    from ts(1) have "transactions c (snd (scanUnitRange reg gw settings startId endId m c)) = ts"
      by (rule transactions_append)
    with that(1) have "(ReadHoldingRegisters u REG_DEVICE_TYPE 1, Reply body) \<in> set ts" by simp
    with ts(2) show ?thesis using that(2,3) by (rule scanned_no_device)
  qed
  from 1 2 3 4 show ?thesis by blast
qed

lemma slot_value_slot5_7: "slot_value table_slot5 7 = 0"
  by (simp add: slot_value_def table_slot5_def nth_append)

theorem empty_units_not_emitted_witness:
  "fst (readPanelServerDeviceAddresses (gw_panel table_slot5) (setUnitId 255 client0)) =
     Inr [(5, 42)] \<and>
   list_all (\<lambda>p. snd p \<noteq> 0 \<and> snd p \<noteq> 65535) [(5 :: nat, 42 :: nat)] \<and>
   slot_value table_slot5 7 = 0 \<and>
   (\<exists>table. fst (readPanelServerDeviceAddresses (gw_panel table_slot5) (setUnitId 255 client0)) =
       Inr table \<and> map_of table 7 = None) \<and>
   fst (discoverViaPanelServer reg_sample (gw_panel table_slot5) settings_sample client0) =
     Inr [buildDeviceEntry reg_sample settings_sample 42 41 model_sample []] \<and>
   list_all (\<lambda>d. store_unitId d \<noteq> 0 \<and> store_unitId d \<noteq> 65535)
     [buildDeviceEntry reg_sample settings_sample 42 41 model_sample []] \<and>
   (ReadHoldingRegisters 100 REG_DEVICE_TYPE 1, Reply [0, 0]) \<in>
     set (transactions client0
       (snd (scanUnitRange reg_sample (gw_zeros_except []) settings_sample 100 102 3 client0))) \<and>
   readUInt16BE [0, 0] 0 = Inr 0 \<and>
   100 \<notin> store_unitId `
     set (fst (scanUnitRange reg_sample (gw_zeros_except []) settings_sample 100 102 3 client0))"
proof -
  let ?c = "setUnitId 255 client0"
  have len: "length table_slot5 = 990" by (simp add: table_slot5_def)
  have a: "fst (readPanelServerDeviceAddresses (gw_panel table_slot5) ?c) = Inr [(5, 42)]"
    using gw_panel_addresses [OF len, of client0] by (simp add: occupied_slot5)
  have b: "replies ?c (snd (readPanelServerDeviceAddresses (gw_panel table_slot5) ?c)) =
      [Reply (take 250 table_slot5), Reply (take 250 (drop 250 table_slot5)),
       Reply (take 250 (drop 500 table_slot5)), Reply (take 240 (drop 750 table_slot5))] \<and>
    length (take 250 table_slot5) = 250 \<and> length (take 250 (drop 250 table_slot5)) = 250 \<and>
    length (take 250 (drop 500 table_slot5)) = 250 \<and>
    length (take 240 (drop 750 table_slot5)) = 240 \<and>
    (slot_value (take 250 table_slot5 @ take 250 (drop 250 table_slot5) @
                 take 250 (drop 500 table_slot5) @ take 240 (drop 750 table_slot5)) 7 = 0 \<or>
     slot_value (take 250 table_slot5 @ take 250 (drop 250 table_slot5) @
                 take 250 (drop 500 table_slot5) @ take 240 (drop 750 table_slot5)) 7 = 65535)"
    unfolding table_chunks [OF len] using gw_panel_replies [of client0 table_slot5]
    by (simp add: len slot_value_slot5_7)
  have d: "fst (discoverViaPanelServer reg_sample (gw_panel table_slot5) settings_sample client0) =
      Inr [buildDeviceEntry reg_sample settings_sample 42 41 model_sample []]"
    using gw_panel_discover [OF len] by (simp add: occupied_slot5)
  have s: "(ReadHoldingRegisters 100 REG_DEVICE_TYPE 1, Reply [0, 0]) \<in>
       set (transactions client0
         (snd (scanUnitRange reg_sample (gw_zeros_except []) settings_sample 100 102 3 client0))) \<and>
     readUInt16BE [0, 0] 0 = Inr 0 \<and> ((0 :: nat) = 0 \<or> (0 :: nat) = 65535)"
  proof -
    have rep: "replicate 2 (0 :: byte) = [0, 0]" by (simp add: numeral_2_eq_2)
    show ?thesis by (simp add: scan_eval rep)
  qed
  note t1 = empty_units_not_emitted [where gw = "gw_panel table_slot5" and c = ?c and
      addressMap = "[(5, 42)]" and s = 7 and buf_a = "take 250 table_slot5" and
      buf_b = "take 250 (drop 250 table_slot5)" and buf_c = "take 250 (drop 500 table_slot5)" and
      buf_d = "take 240 (drop 750 table_slot5)"]
  note t2 = empty_units_not_emitted [where gw = "gw_panel table_slot5" and c = client0 and
      reg = reg_sample and settings = settings_sample and
      devices = "[buildDeviceEntry reg_sample settings_sample 42 41 model_sample []]"]
  note t3 = empty_units_not_emitted [where gw = "gw_zeros_except []" and c = client0 and
      reg = reg_sample and settings = settings_sample and u = 100 and body = "[0, 0]" and
      v = 0 and startId = 100 and endId = 102 and m = 3]
  note c2 = conjunct2
  from t1 [THEN conjunct1, THEN mp, OF a]
  have 1: "list_all (\<lambda>p. snd p \<noteq> 0 \<and> snd p \<noteq> 65535) [(5 :: nat, 42 :: nat)]" by simp
  note 2 = t1 [THEN c2, THEN conjunct1, THEN mp, OF b]
  from t2 [THEN c2, THEN c2, THEN conjunct1, THEN mp, OF d]
  have 3: "list_all (\<lambda>d. store_unitId d \<noteq> 0 \<and> store_unitId d \<noteq> 65535)
     [buildDeviceEntry reg_sample settings_sample 42 41 model_sample []]" by simp
  note 4 = t3 [THEN c2, THEN c2, THEN c2, THEN mp, OF s]
  from a 1 slot_value_slot5_7 2 d 3 s [THEN conjunct1] s [THEN c2, THEN conjunct1] 4
  show ?thesis by (intro conjI)
qed

lemma panelServerSlot_found:
  fixes reg :: "('cap, 'opt) registry"
  assumes "\<not> 255 < u"
    and "fst (readCommercialReference gw (setUnitId u c)) = Inr reference"
    "reference \<noteq> []" "getModelByReference reg reference = Some modelConfig"
  shows "\<exists>deviceName c'. panelServerSlot reg gw settings u devices c =
           (devices @ [buildDeviceEntry reg settings u (mc_typeId modelConfig) modelConfig deviceName],
            c', False)"
proof -
  obtain c2 where "readCommercialReference gw (setUnitId u c) = (Inr reference, c2)"
    using assms(2) by (cases "readCommercialReference gw (setUnitId u c)") simp
  with assms(1,3,4) show ?thesis
    by (auto simp: panelServerSlot_def panelServerSlot_try_def Let_def split_beta)
qed

text \<open>
  C4: \<open>readPanelServerDeviceAddresses\<close> makes exactly four reads, of 125, 125, 125 and
  120 registers from register 504 on. When they are answered with 250, 250, 250 and 240
  bytes, the result maps every slot \<open>s\<close> from 1 to 99 to the 16-bit big-endian value of
  register \<open>504 + (s - 1) * 5\<close> if and only if that value is neither 0 nor 65535, and holds
  no other slot. When slot 5, holding unit 42, is the only occupied slot and the
  commercial reference read from unit 42 is not empty and resolves to a model, discovery
  returns exactly one device, with unit id 42 and the type id and model of that model.
\<close>

theorem panelServer_address_table:
  fixes reg :: "('cap, 'opt) registry"
  assumes r: "replies c (snd (readPanelServerDeviceAddresses gw c)) =
                [Reply buf_a, Reply buf_b, Reply buf_c, Reply buf_d]"
    and len: "length buf_a = 250" "length buf_b = 250" "length buf_c = 250" "length buf_d = 240"
  shows
  "issued c (snd (readPanelServerDeviceAddresses gw c)) =
     [ReadHoldingRegisters (cl_unitId c) 504 125, ReadHoldingRegisters (cl_unitId c) 629 125,
      ReadHoldingRegisters (cl_unitId c) 754 125, ReadHoldingRegisters (cl_unitId c) 879 120] \<and>
   fst (readPanelServerDeviceAddresses gw c) = Inr (occupied_slots (buf_a @ buf_b @ buf_c @ buf_d)) \<and>
   (\<forall>s. map_of (occupied_slots (buf_a @ buf_b @ buf_c @ buf_d)) s =
      (if 1 \<le> s \<and> s \<le> 99 \<and> slot_value (buf_a @ buf_b @ buf_c @ buf_d) s \<noteq> 0 \<and>
          slot_value (buf_a @ buf_b @ buf_c @ buf_d) s \<noteq> 65535
       then Some (slot_value (buf_a @ buf_b @ buf_c @ buf_d) s) else None)) \<and>
   (c = setUnitId 255 client0 \<and> occupied_slots (buf_a @ buf_b @ buf_c @ buf_d) = [(5, 42)] \<and>
    fst (readCommercialReference gw
          (setUnitId 42 (snd (readPanelServerDeviceAddresses gw c)))) = Inr reference \<and>
    reference \<noteq> [] \<and> getModelByReference reg reference = Some modelConfig \<longrightarrow>
    (\<exists>d. fst (discoverDevices reg gw settings Connected) = Inr [d] \<and> store_unitId d = 42 \<and>
         store_typeId d = mc_typeId modelConfig \<and> store_model d = mc_model modelConfig))"
proof -
  let ?T = "buf_a @ buf_b @ buf_c @ buf_d"
  have t: "fst (readPanelServerDeviceAddresses gw c) = Inr (occupied_slots ?T)"
    using r len by (rule readPanelServerDeviceAddresses_table)
  have m: "\<forall>s. map_of (occupied_slots ?T) s =
      (if 1 \<le> s \<and> s \<le> 99 \<and> slot_value ?T s \<noteq> 0 \<and> slot_value ?T s \<noteq> 65535
       then Some (slot_value ?T s) else None)"
    by (simp only: map_of_occupied_slots) simp
  have d: "\<exists>d. fst (discoverDevices reg gw settings Connected) = Inr [d] \<and> store_unitId d = 42 \<and>
         store_typeId d = mc_typeId modelConfig \<and> store_model d = mc_model modelConfig"
    if c: "c = setUnitId 255 client0" and o: "occupied_slots ?T = [(5, 42)]"
      and ref: "fst (readCommercialReference gw
          (setUnitId 42 (snd (readPanelServerDeviceAddresses gw c)))) = Inr reference"
        "reference \<noteq> []" "getModelByReference reg reference = Some modelConfig"
  proof -
    let ?c2 = "snd (readPanelServerDeviceAddresses gw c)"
    have "\<not> (255 :: nat) < 42" by simp
    from panelServerSlot_found [OF this ref, of settings "[]"] obtain deviceName c3 where
      n: "panelServerSlot reg gw settings 42 [] ?c2 =
            ([buildDeviceEntry reg settings 42 (mc_typeId modelConfig) modelConfig deviceName],
             c3, False)"
      by auto
    have a: "readPanelServerDeviceAddresses gw (setUnitId 255 client0) = (Inr [(5, 42)], ?c2)"
      using t o c by (simp add: prod_eq_iff)
    have "fst (discoverViaPanelServer reg gw settings client0) =
        Inr [buildDeviceEntry reg settings 42 (mc_typeId modelConfig) modelConfig deviceName]"
      by (simp add: discoverViaPanelServer_def Let_def a n)
    from discoverDevices_panel [OF this] show ?thesis
      by (simp add: buildDeviceEntry_def)
  qed
  from readPanelServerDeviceAddresses_issued [of c gw] t m d show ?thesis by blast
qed

theorem panelServer_address_table_witness:
  "replies (setUnitId 255 client0)
     (snd (readPanelServerDeviceAddresses (gw_panel table_slot5) (setUnitId 255 client0))) =
     [Reply (take 250 table_slot5), Reply (take 250 (drop 250 table_slot5)),
      Reply (take 250 (drop 500 table_slot5)), Reply (take 240 (drop 750 table_slot5))] \<and>
   length (take 250 table_slot5) = 250 \<and> length (take 250 (drop 250 table_slot5)) = 250 \<and>
   length (take 250 (drop 500 table_slot5)) = 250 \<and>
   length (take 240 (drop 750 table_slot5)) = 240 \<and>
   occupied_slots table_slot5 = [(5, 42)] \<and>
   fst (readCommercialReference (gw_panel table_slot5)
         (setUnitId 42 (snd (readPanelServerDeviceAddresses (gw_panel table_slot5)
            (setUnitId 255 client0))))) = Inr ''A9MEM1541'' \<and>
   getModelByReference reg_sample ''A9MEM1541'' = Some model_sample \<and>
   issued (setUnitId 255 client0)
     (snd (readPanelServerDeviceAddresses (gw_panel table_slot5) (setUnitId 255 client0))) =
     [ReadHoldingRegisters 255 504 125, ReadHoldingRegisters 255 629 125,
      ReadHoldingRegisters 255 754 125, ReadHoldingRegisters 255 879 120] \<and>
   fst (readPanelServerDeviceAddresses (gw_panel table_slot5) (setUnitId 255 client0)) =
     Inr [(5, 42)] \<and>
   (\<exists>d. fst (discoverDevices reg_sample (gw_panel table_slot5) settings_sample Connected) =
          Inr [d] \<and> store_unitId d = 42 \<and> store_typeId d = 41 \<and> store_model d = ''A9MEM1541'')"
proof -
  let ?c = "setUnitId 255 client0"
  let ?buf_a = "take 250 table_slot5" and ?buf_b = "take 250 (drop 250 table_slot5)"
    and ?buf_c = "take 250 (drop 500 table_slot5)" and ?buf_d = "take 240 (drop 750 table_slot5)"
  have len: "length table_slot5 = 990" by (simp add: table_slot5_def)
  have l: "length ?buf_a = 250" "length ?buf_b = 250" "length ?buf_c = 250" "length ?buf_d = 240"
    by (simp_all add: len)
  note r = gw_panel_replies [of client0 table_slot5]
  have ref: "fst (readCommercialReference (gw_panel table_slot5)
         (setUnitId 42 (snd (readPanelServerDeviceAddresses (gw_panel table_slot5) ?c)))) =
       Inr ''A9MEM1541''"
    by (simp add: readCommercialReference_eq setUnitId_def gw_panel_read settle_def
        parse_A9MEM1541_cons)
  have g: "getModelByReference reg_sample ''A9MEM1541'' = Some model_sample"
    by (simp add: reg_sample_def)
  note t = panelServer_address_table [OF r l, where reg = reg_sample and
      settings = settings_sample and reference = "''A9MEM1541''" and modelConfig = model_sample,
      unfolded table_chunks [OF len]]
  have h: "?c = setUnitId 255 client0 \<and> occupied_slots table_slot5 = [(5, 42)] \<and>
    fst (readCommercialReference (gw_panel table_slot5)
          (setUnitId 42 (snd (readPanelServerDeviceAddresses (gw_panel table_slot5) ?c)))) =
      Inr ''A9MEM1541'' \<and>
    ''A9MEM1541'' \<noteq> [] \<and> getModelByReference reg_sample ''A9MEM1541'' = Some model_sample"
    using ref g by (simp add: occupied_slot5)
  note c2 = conjunct2
  from t [THEN conjunct1] have i: "issued ?c
     (snd (readPanelServerDeviceAddresses (gw_panel table_slot5) ?c)) =
     [ReadHoldingRegisters 255 504 125, ReadHoldingRegisters 255 629 125,
      ReadHoldingRegisters 255 754 125, ReadHoldingRegisters 255 879 120]"
    by (simp add: setUnitId_def)
  from t [THEN c2, THEN conjunct1] have a:
    "fst (readPanelServerDeviceAddresses (gw_panel table_slot5) ?c) = Inr [(5, 42)]"
    by (simp add: occupied_slot5)
  from t [THEN c2, THEN c2, THEN c2, THEN mp, OF h] have d:
    "\<exists>d. fst (discoverDevices reg_sample (gw_panel table_slot5) settings_sample Connected) =
          Inr [d] \<and> store_unitId d = 42 \<and> store_typeId d = 41 \<and> store_model d = ''A9MEM1541''"
    by (simp add: model_sample_def)
  from r l occupied_slot5 ref g i a d show ?thesis by (intro conjI)
qed

end
